theory Spec2Isabelle
  imports Complex_Main "HOL-Library.Sublist"
begin

section \<open>Python strings and lists\<close>

text \<open>
  A Python \<open>str\<close> is modelled as a \<open>string\<close> whose characters are the code points below
  256.  \<open>isspace\<close> is the set \<open>str.strip()\<close> removes in that range, \<open>is_linebreak\<close> the
  set \<open>str.splitlines()\<close> breaks at.
\<close>

definition isspace :: "char \<Rightarrow> bool" where
  "isspace c = (of_char c \<in> set [9, 10, 11, 12, 13, 28, 29, 30, 31, 32, 133, 160 :: nat])"

definition py_strip :: "string \<Rightarrow> string" where
  "py_strip s = rev (dropWhile isspace (rev (dropWhile isspace s)))"

fun startswith :: "string \<Rightarrow> string \<Rightarrow> bool" where
  "startswith s [] = True"
| "startswith [] (p # ps) = False"
| "startswith (c # cs) (p # ps) = (c = p \<and> startswith cs ps)"

text \<open>\<open>contains needle s\<close> is Python's \<open>needle in s\<close>.\<close>

fun contains :: "string \<Rightarrow> string \<Rightarrow> bool" where
  "contains needle [] = (needle = [])"
| "contains needle (c # cs) = (startswith (c # cs) needle \<or> contains needle cs)"

definition is_linebreak :: "char \<Rightarrow> bool" where
  "is_linebreak c = (of_char c \<in> set [10, 11, 12, 13, 28, 29, 30, 133 :: nat])"

text \<open>
  \<open>splitlines_from keepends cur s\<close> scans \<open>s\<close> with the line read so far in \<open>cur\<close>;
  a carriage return followed by a line feed is one line ending.
\<close>

fun splitlines_from :: "bool \<Rightarrow> string \<Rightarrow> string \<Rightarrow> string list" where
  "splitlines_from k cur [] = (if cur = [] then [] else [cur])"
| "splitlines_from k cur [c] =
     (if is_linebreak c then [cur @ (if k then [c] else [])] else [cur @ [c]])"
| "splitlines_from k cur (c # d # cs) =
     (if c = CHR 0x0D \<and> d = CHR 0x0A
      then (cur @ (if k then [c, d] else [])) # splitlines_from k [] cs
      else if is_linebreak c
      then (cur @ (if k then [c] else [])) # splitlines_from k [] (d # cs)
      else splitlines_from k (cur @ [c]) (d # cs))"

definition splitlines :: "bool \<Rightarrow> string \<Rightarrow> string list" where
  "splitlines keepends s = splitlines_from keepends [] s"

text \<open>\<open>slice_from i xs\<close> is the slice \<open>xs[i:]\<close>, for any integer \<open>i\<close>.\<close>

definition slice_from :: "int \<Rightarrow> 'a list \<Rightarrow> 'a list" where
  "slice_from i xs =
     (let n = int (length xs);
          start = (if i < 0 then max 0 (i + n) else min i n)
      in drop (nat start) xs)"

text \<open>\<open>join sep xs\<close> is \<open>sep.join(xs)\<close>.\<close>

fun join :: "string \<Rightarrow> string list \<Rightarrow> string" where
  "join sep [] = []"
| "join sep [x] = x"
| "join sep (x # y # ys) = x @ sep @ join sep (y # ys)"

text \<open>
  \<open>round2 x\<close> is \<open>round(x, 2)\<close>, with the float idealised as a rational number: the
  nearest multiple of a hundredth, a tie going to the even one.
\<close>

definition round2 :: "rat \<Rightarrow> rat" where
  "round2 x =
     (let y = x * 100; f = \<lfloor>y\<rfloor>; d = y - of_int f
      in of_int (if d < 1 / 2 then f else if 1 / 2 < d then f + 1
                 else if even f then f else f + 1) / 100)"

section \<open>Exceptions\<close>

text \<open>
  An exception value carries \<open>str(e)\<close>.  The classes kept apart are the ones some
  \<open>except\<close> clause of the program names; \<open>OSError\<close> stands for the operating-system
  errors other than \<open>FileNotFoundError\<close> and \<open>URLError\<close>, and \<open>Exception\<close> for every other
  subclass of \<open>Exception\<close> (a timeout of the child process among them).  Asynchronous
  interrupts are outside the model.
\<close>

datatype exn =
    FileNotFoundError string
  | OSError string
  | RuntimeError string
  | URLError string
  | Exception string

fun str_of :: "exn \<Rightarrow> string" where
  "str_of (FileNotFoundError m) = m"
| "str_of (OSError m) = m"
| "str_of (RuntimeError m) = m"
| "str_of (URLError m) = m"
| "str_of (Exception m) = m"

section \<open>Files and paths\<close>

text \<open>
  The file system maps an absolute path (its components from the root) to a regular
  file with its text or to a directory; the root is always a directory.  Permissions,
  links and undecodable bytes are outside the model.
\<close>

type_synonym path = "string list"

datatype node = File string | Dir

type_synonym fs = "path \<Rightarrow> node option"

definition node_at :: "fs \<Rightarrow> path \<Rightarrow> node option" where
  "node_at fs p = (if p = [] then Some Dir else fs p)"

definition path_exists :: "fs \<Rightarrow> path \<Rightarrow> bool" where
  "path_exists fs p = (node_at fs p \<noteq> None)"

definition read_text :: "fs \<Rightarrow> path \<Rightarrow> exn + string" where
  "read_text fs p =
     (case node_at fs p of
        None \<Rightarrow> Inl (FileNotFoundError ''No such file or directory'')
      | Some Dir \<Rightarrow> Inl (OSError ''Is a directory'')
      | Some (File t) \<Rightarrow> Inr t)"

text \<open>
  \<open>open_write fs p f\<close> opens \<open>p\<close> for writing and leaves \<open>f old\<close> in it, \<open>old\<close> being the
  text it held (empty for a new file): \<open>write_text\<close> truncates, \<open>append_text\<close> is mode
  \<open>"a"\<close>.
\<close>

definition open_write :: "fs \<Rightarrow> path \<Rightarrow> (string \<Rightarrow> string) \<Rightarrow> exn + fs" where
  "open_write fs p f =
     (case node_at fs p of
        Some Dir \<Rightarrow> Inl (OSError ''Is a directory'')
      | Some (File old) \<Rightarrow> Inr (fs(p \<mapsto> File (f old)))
      | None \<Rightarrow>
          (case node_at fs (butlast p) of
             None \<Rightarrow> Inl (FileNotFoundError ''No such file or directory'')
           | Some (File t) \<Rightarrow> Inl (OSError ''Not a directory'')
           | Some Dir \<Rightarrow> Inr (fs(p \<mapsto> File (f [])))))"

definition write_text :: "fs \<Rightarrow> path \<Rightarrow> string \<Rightarrow> exn + fs" where
  "write_text fs p t = open_write fs p (\<lambda>old. t)"

definition append_text :: "fs \<Rightarrow> path \<Rightarrow> string \<Rightarrow> exn + fs" where
  "append_text fs p t = open_write fs p (\<lambda>old. old @ t)"

text \<open>
  \<open>mkdir_parents fs p\<close> is \<open>Path.mkdir(parents=True, exist_ok=True)\<close>: every missing
  directory on the way down to \<open>p\<close> is created, and a regular file on the way raises.
\<close>

fun mkdirs :: "fs \<Rightarrow> path \<Rightarrow> string list \<Rightarrow> exn + fs" where
  "mkdirs fs base [] = Inr fs"
| "mkdirs fs base (c # cs) =
     (case fs (base @ [c]) of
        Some (File t) \<Rightarrow> Inl (OSError ''File exists'')
      | Some Dir \<Rightarrow> mkdirs fs (base @ [c]) cs
      | None \<Rightarrow> mkdirs (fs(base @ [c] \<mapsto> Dir)) (base @ [c]) cs)"

definition mkdir_parents :: "fs \<Rightarrow> path \<Rightarrow> exn + fs" where
  "mkdir_parents fs p = mkdirs fs [] p"

text \<open>
  A \<open>pathlib\<close> path in parsed form: absolute or relative, with its components.
\<close>

datatype pypath = AbsPath path | RelPath path

fun parent :: "pypath \<Rightarrow> pypath" where
  "parent (AbsPath cs) = AbsPath (butlast cs)"
| "parent (RelPath cs) = RelPath (butlast cs)"

fun is_absolute :: "pypath \<Rightarrow> bool" where
  "is_absolute (AbsPath cs) = True"
| "is_absolute (RelPath cs) = False"

fun path_str :: "pypath \<Rightarrow> string" where
  "path_str (AbsPath cs) = CHR ''/'' # join ''/'' cs"
| "path_str (RelPath cs) = (if cs = [] then ''.'' else join ''/'' cs)"

section \<open>Configuration and results\<close>

text \<open>
  The fields of \<open>TinManConfig\<close>, in the order of the source.  The two path settings are
  kept as parsed paths.
\<close>

record TinManConfig =
  interval_minutes :: int
  run_on_start :: bool
  notify_only :: bool
  max_actions_per_run :: int
  require_confirmation :: bool
  log_heartbeats :: bool
  log_file :: pypath
  max_log_lines :: int
  notify_stdout :: bool
  notify_c3poh :: bool
  c3poh_endpoint :: string
  heartbeat_md :: pypath
  allowed_commands :: "string list"
  preset :: string

text \<open>The result dictionary of one heartbeat.\<close>

record result =
  timestamp :: string
  status :: string
  output' :: string
  error :: string
  duration_seconds :: rat

section \<open>The world outside the program\<close>

text \<open>
  What the program reads from its environment during one heartbeat: the working
  directory, the home directories \<open>expanduser\<close> looks up, the UTC time in ISO format, the
  two readings of \<open>time.time()\<close> (before the invocation, and after it or in the handler),
  the search of the executable path, what running the child process gives (its captured
  output and error text, or the exception raised), the text \<open>json.dumps\<close> renders a
  result as, and what building and opening the HTTP request raises, if anything.
\<close>

record world =
  cwd :: path
  gethomedir :: "string \<Rightarrow> path option"
  utcnow :: string
  time_start :: rat
  time_end :: rat
  which :: "string \<Rightarrow> string option"
  subprocess_run :: "string list \<Rightarrow> exn + string \<times> string"
  json_dumps :: "result \<Rightarrow> string"
  urlopen :: "string \<Rightarrow> result \<Rightarrow> exn option"

text \<open>
  What the program does to its environment: the calls of interest and the lines
  printed, in order.  \<open>PrintHeader\<close> is the first line of the console sink (glyph,
  timestamp and duration of the result).
\<close>

datatype event =
    Print string
  | PrintErr string
  | PrintHeader result
  | Exec "string list"
  | LogCall result
  | EmitCall result
  | HttpPost string result

record state =
  files :: fs
  trace :: "event list"
  heartbeat_md_path :: "pypath option"

fun abs_of :: "world \<Rightarrow> pypath \<Rightarrow> path" where
  "abs_of w (AbsPath cs) = cs"
| "abs_of w (RelPath cs) = cwd w @ cs"

fun expanduser :: "world \<Rightarrow> pypath \<Rightarrow> exn + pypath" where
  "expanduser w (AbsPath cs) = Inr (AbsPath cs)"
| "expanduser w (RelPath []) = Inr (RelPath [])"
| "expanduser w (RelPath (c # cs)) =
     (if take 1 c = ''~'' then
        (case gethomedir w (drop 1 c) of
           None \<Rightarrow> Inl (RuntimeError ''Could not determine home directory.'')
         | Some h \<Rightarrow> Inr (AbsPath (h @ cs)))
      else Inr (RelPath (c # cs)))"

section \<open>The logger\<close>

record HeartbeatLogger =
  lg_config :: TinManConfig
  log_path :: pypath

definition HeartbeatLogger_init ::
  "world \<Rightarrow> TinManConfig \<Rightarrow> state \<Rightarrow> (exn + HeartbeatLogger) \<times> state" where
  "HeartbeatLogger_init w cfg s =
     (case expanduser w (log_file cfg) of
        Inl e \<Rightarrow> (Inl e, s)
      | Inr lp \<Rightarrow>
          (case mkdir_parents (files s) (abs_of w (parent lp)) of
             Inl e \<Rightarrow> (Inl e, s)
           | Inr fs' \<Rightarrow> (Inr \<lparr>lg_config = cfg, log_path = lp\<rparr>, s\<lparr>files := fs'\<rparr>)))"

text \<open>Rotation swallows every exception: the state is then left as it was.\<close>

definition rotate_if_needed :: "world \<Rightarrow> HeartbeatLogger \<Rightarrow> state \<Rightarrow> state" where
  "rotate_if_needed w lg s =
     (case read_text (files s) (abs_of w (log_path lg)) of
        Inl e \<Rightarrow> s
      | Inr text \<Rightarrow>
          (let lines = splitlines True text in
           if int (length lines) > max_log_lines (lg_config lg) then
             (let keep = slice_from (- max_log_lines (lg_config lg)) lines in
              case write_text (files s) (abs_of w (log_path lg)) (concat keep) of
                Inl e \<Rightarrow> s
              | Inr fs' \<Rightarrow> s\<lparr>files := fs'\<rparr>)
           else s))"

definition logger_log ::
  "world \<Rightarrow> HeartbeatLogger \<Rightarrow> result \<Rightarrow> state \<Rightarrow> (exn + unit) \<times> state" where
  "logger_log w lg r s =
     (if \<not> log_heartbeats (lg_config lg) then (Inr (), s)
      else
        (case append_text (files s) (abs_of w (log_path lg)) (json_dumps w r @ ''\<newline>'') of
           Inl e \<Rightarrow> (Inl e, s)
         | Inr fs' \<Rightarrow> (Inr (), rotate_if_needed w lg (s\<lparr>files := fs'\<rparr>))))"

text \<open>
  The loop of \<open>tail\<close>.  \<open>loads\<close> is \<open>json.loads\<close>: \<open>None\<close> where it raises
  \<open>JSONDecodeError\<close>.
\<close>

fun tail_loop :: "(string \<Rightarrow> 'e option) \<Rightarrow> string list \<Rightarrow> 'e list \<Rightarrow> 'e list" where
  "tail_loop loads [] entries = entries"
| "tail_loop loads (line # lines) entries =
     (if py_strip line \<noteq> [] then
        (case loads (py_strip line) of
           Some e \<Rightarrow> tail_loop loads lines (entries @ [e])
         | None \<Rightarrow> tail_loop loads lines entries)
      else tail_loop loads lines entries)"

definition tail ::
  "world \<Rightarrow> (string \<Rightarrow> 'e option) \<Rightarrow> HeartbeatLogger \<Rightarrow> int \<Rightarrow> state \<Rightarrow> exn + 'e list" where
  "tail w loads lg n s =
     (if \<not> path_exists (files s) (abs_of w (log_path lg)) then Inr []
      else
        (case read_text (files s) (abs_of w (log_path lg)) of
           Inl e \<Rightarrow> Inl e
         | Inr text \<Rightarrow> Inr (tail_loop loads (slice_from (- n) (splitlines False text)) [])))"

text \<open>A run of calls to \<open>logger_log\<close>, one after the other, stopping at an exception.\<close>

fun log_all ::
  "world \<Rightarrow> HeartbeatLogger \<Rightarrow> result list \<Rightarrow> state \<Rightarrow> (exn + unit) \<times> state" where
  "log_all w lg [] s = (Inr (), s)"
| "log_all w lg (r # rs) s =
     (case logger_log w lg r s of
        (Inl e, s') \<Rightarrow> (Inl e, s')
      | (Inr u, s') \<Rightarrow> log_all w lg rs s')"

section \<open>The heartbeat runner\<close>

definition DEFAULT_HEARTBEAT_MD :: string where
  \<open>DEFAULT_HEARTBEAT_MD =
     ''# TinMan Heartbeat Checklist\<newline>'' @
     ''\<newline>'' @
     ''<!-- TinMan runs this checklist on every heartbeat. -->\<newline>'' @
     ''<!-- Keep actions NOTIFY-ONLY unless you know what you'' @ [CHR 0x27] @ ''re doing. -->\<newline>'' @
     ''<!-- See docs/HEARTBEAT_GUIDE.md for safe customization tips. -->\<newline>'' @
     ''\<newline>'' @
     ''You are running a scheduled heartbeat check for this Claude Code project.\<newline>'' @
     ''\<newline>'' @
     ''## Your job every heartbeat:\<newline>'' @
     ''\<newline>'' @
     ''1. **Recent activity**: Summarize anything that needs the user'' @ [CHR 0x27] @ ''s attention:\<newline>'' @
     ''   - Failed tool calls or errors from recent sessions\<newline>'' @
     ''   - Uncommitted changes or stale git branches\<newline>'' @
     ''   - Large files or directories created recently\<newline>'' @
     ''\<newline>'' @
     ''2. **System sanity**:\<newline>'' @
     ''   - Disk space on current volume (warn if < 5 GB free)\<newline>'' @
     ''   - Any runaway processes (high CPU/memory if detectable)\<newline>'' @
     ''\<newline>'' @
     ''3. **Project health** (if in a git repo):\<newline>'' @
     ''   - Uncommitted changes (git status --short)\<newline>'' @
     ''   - Unpushed commits (git log @'' @ ''{u}.. if upstream set)\<newline>'' @
     ''   - Failed CI (if .github/workflows present, note last known state)\<newline>'' @
     ''\<newline>'' @
     ''4. **Security sanity**:\<newline>'' @
     ''   - Any unexpected files in sensitive locations (~/.ssh, .env files)\<newline>'' @
     ''   - API keys in plain sight in recently modified files\<newline>'' @
     ''\<newline>'' @
     ''## Response format:\<newline>'' @
     ''\<newline>'' @
     ''If nothing needs attention:\<newline>'' @
     ''  Reply with exactly: `HEARTBEAT_OK`\<newline>'' @
     ''\<newline>'' @
     ''If something needs attention:\<newline>'' @
     ''  - Give 1-5 bullet summary of issues\<newline>'' @
     ''  - Recommend a next action for each\<newline>'' @
     ''  - Ask for confirmation before taking ANY irreversible step\<newline>'' @
     ''\<newline>'' @
     ''## Hard rules (do not override these):\<newline>'' @
     ''- Do NOT execute destructive commands (rm, drop, delete, format)\<newline>'' @
     ''- Do NOT exfiltrate secrets or API keys\<newline>'' @
     ''- Do NOT make git commits or pushes without explicit user confirmation\<newline>'' @
     ''- Do NOT install software without explicit user confirmation\<newline>''\<close>

record HeartbeatRunner =
  config :: TinManConfig
  logger :: HeartbeatLogger

definition HeartbeatRunner_init ::
  "world \<Rightarrow> TinManConfig \<Rightarrow> state \<Rightarrow> (exn + HeartbeatRunner) \<times> state" where
  "HeartbeatRunner_init w cfg s =
     (case HeartbeatLogger_init w cfg s of
        (Inl e, s') \<Rightarrow> (Inl e, s')
      | (Inr lg, s') \<Rightarrow>
          (Inr \<lparr>config = cfg, logger = lg\<rparr>, s'\<lparr>heartbeat_md_path := None\<rparr>))"

definition ensure_heartbeat_md ::
  "world \<Rightarrow> HeartbeatRunner \<Rightarrow> state \<Rightarrow> (exn + pypath) \<times> state" where
  "ensure_heartbeat_md w rn s =
     (case expanduser w (heartbeat_md (config rn)) of
        Inl e \<Rightarrow> (Inl e, s)
      | Inr p0 \<Rightarrow>
          (let p = (if is_absolute p0 then p0 else AbsPath (abs_of w p0)) in
           if \<not> path_exists (files s) (abs_of w p) then
             (case mkdir_parents (files s) (abs_of w (parent p)) of
                Inl e \<Rightarrow> (Inl e, s)
              | Inr fs1 \<Rightarrow>
                  (case write_text fs1 (abs_of w p) DEFAULT_HEARTBEAT_MD of
                     Inl e \<Rightarrow> (Inl e, s\<lparr>files := fs1\<rparr>)
                   | Inr fs2 \<Rightarrow>
                       (Inr p,
                        s\<lparr>files := fs2,
                          trace := trace s @
                            [Print (''[TinMan] Created default HEARTBEAT.md at '' @ path_str p),
                             Print ''[TinMan] Edit it to customize your heartbeat checklist.''],
                          heartbeat_md_path := Some p\<rparr>)))
           else (Inr p, s\<lparr>heartbeat_md_path := Some p\<rparr>)))"

definition safety_prefix :: "TinManConfig \<Rightarrow> string" where
  "safety_prefix cfg =
     (let mode = [];
          mode = (if notify_only cfg
                  then mode @ [''NOTIFY-ONLY MODE: Do not execute any commands or take autonomous actions.'']
                  else mode);
          mode = (if max_actions_per_run cfg = 0
                  then mode @ [''You may not run shell commands in this heartbeat.'']
                  else mode);
          mode = (if require_confirmation cfg
                  then mode @ [''If action is needed, describe it and ask for confirmation. Do not proceed.'']
                  else mode)
      in if mode = [] then []
         else ''=== TinMan Safety Rules (enforced by config) ===\<newline>'' @
              join ''\<newline>'' (map (\<lambda>m. ''- '' @ m) mode))"

definition invoke_claude ::
  "world \<Rightarrow> HeartbeatRunner \<Rightarrow> string \<Rightarrow> state \<Rightarrow> (exn + string \<times> string) \<times> state" where
  "invoke_claude w rn checklist s =
     (case which w ''claude'' of
        None \<Rightarrow> (Inl (FileNotFoundError ''claude''), s)
      | Some claude_bin \<Rightarrow>
          if claude_bin = [] then (Inl (FileNotFoundError ''claude''), s)
          else
            (let prompt = safety_prefix (config rn) @ ''\<newline>\<newline>---\<newline>\<newline>'' @ checklist;
                 cmd = [claude_bin, ''--print'', prompt];
                 s' = s\<lparr>trace := trace s @ [Exec cmd]\<rparr>
             in case subprocess_run w cmd of
                  Inl e \<Rightarrow> (Inl e, s')
                | Inr (out, err) \<Rightarrow> (Inr (py_strip out, py_strip err), s')))"

definition print_result :: "result \<Rightarrow> state \<Rightarrow> state" where
  "print_result r s =
     s\<lparr>trace := trace s @ [PrintHeader r] @
          (if output' r \<noteq> [] then [Print (output' r)] else []) @
          (if error r \<noteq> [] then [PrintErr (''[TinMan] ERROR: '' @ error r)] else [])\<rparr>"

text \<open>Only \<open>URLError\<close> is caught around the request; anything else propagates.\<close>

definition send_c3poh ::
  "world \<Rightarrow> HeartbeatRunner \<Rightarrow> result \<Rightarrow> state \<Rightarrow> (exn + unit) \<times> state" where
  "send_c3poh w rn r s =
     (let s1 = s\<lparr>trace := trace s @ [HttpPost (c3poh_endpoint (config rn)) r]\<rparr>
      in case urlopen w (c3poh_endpoint (config rn)) r of
           None \<Rightarrow> (Inr (), s1)
         | Some (URLError m) \<Rightarrow>
             (Inr (), s1\<lparr>trace := trace s1 @ [PrintErr (''[TinMan] C3Poh notify failed: '' @ m)]\<rparr>)
         | Some e \<Rightarrow> (Inl e, s1))"

definition emit ::
  "world \<Rightarrow> HeartbeatRunner \<Rightarrow> result \<Rightarrow> state \<Rightarrow> (exn + unit) \<times> state" where
  "emit w rn r s =
     (let s1 = (if notify_stdout (config rn) then print_result r s else s)
      in if notify_c3poh (config rn) \<and> c3poh_endpoint (config rn) \<noteq> []
         then send_c3poh w rn r s1
         else (Inr (), s1))"

text \<open>
  The three lines that close both exits of \<open>run_beat\<close>: log the result, emit it,
  return it.
\<close>

definition log_emit_return ::
  "world \<Rightarrow> HeartbeatRunner \<Rightarrow> result \<Rightarrow> state \<Rightarrow> (exn + result) \<times> state" where
  "log_emit_return w rn r s =
     (case logger_log w (logger rn) r (s\<lparr>trace := trace s @ [LogCall r]\<rparr>) of
        (Inl e, s1) \<Rightarrow> (Inl e, s1)
      | (Inr u, s1) \<Rightarrow>
          (case emit w rn r (s1\<lparr>trace := trace s1 @ [EmitCall r]\<rparr>) of
             (Inl e, s2) \<Rightarrow> (Inl e, s2)
           | (Inr u', s2) \<Rightarrow> (Inr r, s2)))"

text \<open>
  The \<open>try\<close> statement of \<open>run_beat\<close>: the invocation, the classification of what it
  returned, and the two handlers.
\<close>

definition try_invoke ::
  "world \<Rightarrow> HeartbeatRunner \<Rightarrow> string \<Rightarrow> result \<Rightarrow> state \<Rightarrow> result \<times> state" where
  "try_invoke w rn checklist r s =
     (let start = time_start w in
      case invoke_claude w rn checklist s of
        (Inr (out, err), s') \<Rightarrow>
          (r\<lparr>duration_seconds := round2 (time_end w - start),
              output' := out,
              error := err,
              status := (if err \<noteq> [] \<and> out = [] then ''error''
                         else if contains ''HEARTBEAT_OK'' out then ''ok''
                         else ''alert'')\<rparr>, s')
      | (Inl (FileNotFoundError m), s') \<Rightarrow>
          (r\<lparr>status := ''error'',
              error := ''claude CLI not found. Install Claude Code: https://claude.ai/code'',
              duration_seconds := round2 (time_end w - start)\<rparr>, s')
      | (Inl e, s') \<Rightarrow>
          (r\<lparr>status := ''error'',
              error := str_of e,
              duration_seconds := round2 (time_end w - start)\<rparr>, s'))"

definition run_beat ::
  "world \<Rightarrow> HeartbeatRunner \<Rightarrow> state \<Rightarrow> (exn + result) \<times> state" where
  "run_beat w rn s =
     (let ts = utcnow w @ ''Z'';
          r = \<lparr>timestamp = ts, status = ''unknown'', output' = [], error = [],
               duration_seconds = 0\<rparr>
      in case ensure_heartbeat_md w rn s of
           (Inl e, s1) \<Rightarrow> (Inl e, s1)
         | (Inr checklist_path, s1) \<Rightarrow>
             (case read_text (files s1) (abs_of w checklist_path) of
                Inl e \<Rightarrow> (Inl e, s1)
              | Inr checklist \<Rightarrow>
                  if py_strip checklist = [] then
                    log_emit_return w rn
                      (r\<lparr>status := ''skipped_empty'',
                          output' := ''HEARTBEAT.md is empty - skipping run. Add checklist items to enable.''\<rparr>)
                      s1
                  else
                    (case try_invoke w rn checklist r s1 of
                       (r', s2) \<Rightarrow> log_emit_return w rn r' s2)))"

section \<open>Observing a run\<close>

text \<open>
  The result an event carries, the two calls that make the persist-and-emit step, the
  events a run added to the trace, and the two conditions under which that step raises
  nothing: the log file can be opened for appending, and the remote sink, if enabled,
  raises at most \<open>URLError\<close>.
\<close>

fun carried :: "event \<Rightarrow> result option" where
  "carried (LogCall r) = Some r"
| "carried (EmitCall r) = Some r"
| "carried (PrintHeader r) = Some r"
| "carried (HttpPost u r) = Some r"
| "carried (Print t) = None"
| "carried (PrintErr t) = None"
| "carried (Exec cmd) = None"

fun is_log_or_emit :: "event \<Rightarrow> bool" where
  "is_log_or_emit (LogCall r) = True"
| "is_log_or_emit (EmitCall r) = True"
| "is_log_or_emit ev = False"

fun is_exec :: "event \<Rightarrow> bool" where
  "is_exec (Exec cmd) = True"
| "is_exec ev = False"

definition events_since :: "state \<Rightarrow> state \<Rightarrow> event list" where
  "events_since s s' = drop (length (trace s)) (trace s')"

definition log_ready :: "world \<Rightarrow> HeartbeatLogger \<Rightarrow> fs \<Rightarrow> bool" where
  "log_ready w lg fs =
     (\<not> log_heartbeats (lg_config lg) \<or>
      (case node_at fs (abs_of w (log_path lg)) of
         Some (File t) \<Rightarrow> True
       | Some Dir \<Rightarrow> False
       | None \<Rightarrow> node_at fs (butlast (abs_of w (log_path lg))) = Some Dir))"

definition sink_ok :: "world \<Rightarrow> TinManConfig \<Rightarrow> result \<Rightarrow> bool" where
  "sink_ok w cfg r =
     (\<not> (notify_c3poh cfg \<and> c3poh_endpoint cfg \<noteq> []) \<or>
      (case urlopen w (c3poh_endpoint cfg) r of
         None \<Rightarrow> True
       | Some (URLError m) \<Rightarrow> True
       | Some e \<Rightarrow> False))"

text \<open>
  The result \<open>run_beat\<close> builds once the checklist has been read: the fixed one of the
  skipped run, or the one its \<open>try\<close> statement leaves.
\<close>

definition beat_result :: "world \<Rightarrow> HeartbeatRunner \<Rightarrow> string \<Rightarrow> state \<Rightarrow> result" where
  "beat_result w rn checklist s1 =
     (if py_strip checklist = [] then
        \<lparr>timestamp = utcnow w @ ''Z'', status = ''skipped_empty'',
         output' = ''HEARTBEAT.md is empty - skipping run. Add checklist items to enable.'',
         error = [], duration_seconds = 0\<rparr>
      else
        fst (try_invoke w rn checklist
               \<lparr>timestamp = utcnow w @ ''Z'', status = ''unknown'', output' = [], error = [],
                duration_seconds = 0\<rparr> s1))"

text \<open>
  The path \<open>ensure_heartbeat_md\<close> works on, once the home directory has been expanded:
  the path itself if absolute, else the path below the working directory.
\<close>

definition resolved :: "world \<Rightarrow> pypath \<Rightarrow> pypath" where
  "resolved w p0 = (if is_absolute p0 then p0 else AbsPath (abs_of w p0))"

text \<open>
  The lines the log file holds (none when there is no file), and the last \<open>n\<close> elements
  of a list.
\<close>

definition log_lines :: "fs \<Rightarrow> path \<Rightarrow> string list" where
  "log_lines fs q =
     (case node_at fs q of
        Some (File t) \<Rightarrow> splitlines False t
      | Some Dir \<Rightarrow> []
      | None \<Rightarrow> [])"

definition lastn :: "nat \<Rightarrow> 'a list \<Rightarrow> 'a list" where
  "lastn n xs = drop (length xs - n) xs"

text \<open>
  The log file at \<open>q\<close> holds exactly the lines \<open>ls\<close>, each ended by a line feed; a log
  file not yet created, in a directory that exists, holds no lines.
\<close>

definition holds_lines :: "fs \<Rightarrow> path \<Rightarrow> string list \<Rightarrow> bool" where
  "holds_lines fs q ls =
     (q \<noteq> [] \<and>
      (fs q = Some (File (concat (map (\<lambda>l. l @ ''\<newline>'') ls))) \<or>
       (ls = [] \<and> fs q = None \<and> node_at fs (butlast q) = Some Dir)))"

text \<open>
  What \<open>tail\<close> makes of one line, and \<open>tail\<close> as the specification words it: the last
  \<open>n\<close> of the entries that decode.
\<close>

definition decode_line :: "(string \<Rightarrow> 'e option) \<Rightarrow> string \<Rightarrow> 'e option" where
  "decode_line loads line = (if py_strip line = [] then None else loads (py_strip line))"

definition tail_by_spec :: "(string \<Rightarrow> 'e option) \<Rightarrow> int \<Rightarrow> string \<Rightarrow> 'e list" where
  "tail_by_spec loads n text =
     lastn (nat n) (List.map_filter (decode_line loads) (splitlines False text))"

section \<open>An example environment\<close>

text \<open>
  The defaults of the \<open>TinManConfig\<close> dataclass, and a small environment to run the model
  in: a project directory with a one-line checklist, the tool installed and answering
  with the marker, the log directory in place.  \<open>example_dumps\<close> is the rendering of a
  result this environment uses; it shows the timestamp and the status only.
\<close>

definition default_config :: TinManConfig where
  "default_config =
     \<lparr>interval_minutes = 30, run_on_start = True, notify_only = True,
      max_actions_per_run = 0, require_confirmation = True, log_heartbeats = True,
      log_file = RelPath [''~'', ''.tinman'', ''heartbeat.log''], max_log_lines = 1000,
      notify_stdout = True, notify_c3poh = False, c3poh_endpoint = [],
      heartbeat_md = RelPath [''HEARTBEAT.md''], allowed_commands = [],
      preset = ''sane''\<rparr>"

definition example_dumps :: "result \<Rightarrow> string" where
  \<open>example_dumps r =
     ''{"timestamp": "'' @ timestamp r @ ''", "status": "'' @ status r @ ''"}''\<close>

definition example_world :: world where
  "example_world =
     \<lparr>cwd = [''home'', ''u'', ''proj''],
      gethomedir = (\<lambda>u. if u = [] then Some [''home'', ''u''] else None),
      utcnow = ''2025-01-01T00:00:00'',
      time_start = 100,
      time_end = 101,
      which = (\<lambda>n. if n = ''claude'' then Some ''/usr/local/bin/claude'' else None),
      subprocess_run = (\<lambda>cmd. Inr (''HEARTBEAT_OK\<newline>'', [])),
      json_dumps = example_dumps,
      urlopen = (\<lambda>u r. None)\<rparr>"

definition example_files :: fs where
  "example_files =
     [[''home''] \<mapsto> Dir,
      [''home'', ''u''] \<mapsto> Dir,
      [''home'', ''u'', ''proj''] \<mapsto> Dir,
      [''home'', ''u'', ''.tinman''] \<mapsto> Dir,
      [''home'', ''u'', ''proj'', ''HEARTBEAT.md''] \<mapsto> File ''Check the disk.\<newline>'']"

definition example_state :: state where
  "example_state = \<lparr>files = example_files, trace = [], heartbeat_md_path = None\<rparr>"

definition example_logger :: HeartbeatLogger where
  "example_logger =
     \<lparr>lg_config = default_config,
      log_path = AbsPath [''home'', ''u'', ''.tinman'', ''heartbeat.log'']\<rparr>"

definition example_runner :: HeartbeatRunner where
  "example_runner = \<lparr>config = default_config, logger = example_logger\<rparr>"

text \<open>
  Variations of the example: the tool prints nothing and writes a blank line on its
  error stream; the tool is not installed; the child process times out; the checklist
  path is a directory.
\<close>

definition blank_stderr_world :: world where
  "blank_stderr_world = example_world\<lparr>subprocess_run := (\<lambda>cmd. Inr ([], ''\<newline>''))\<rparr>"

definition no_tool_world :: world where
  "no_tool_world = example_world\<lparr>which := (\<lambda>n. None)\<rparr>"



text \<open>
  The settings of the \<open>chaos\<close> preset over the defaults, a logger whose configuration
  has logging switched off, and a result to log.
\<close>

definition chaos_config :: TinManConfig where
  "chaos_config =
     default_config\<lparr>interval_minutes := 5, notify_only := False, max_actions_per_run := 10,
       require_confirmation := False, max_log_lines := 10000, preset := ''chaos''\<rparr>"

definition quiet_logger :: HeartbeatLogger where
  "quiet_logger = example_logger\<lparr>lg_config := default_config\<lparr>log_heartbeats := False\<rparr>\<rparr>"

definition example_result :: result where
  "example_result =
     \<lparr>timestamp = ''2025-01-01T00:00:00Z'', status = ''ok'', output' = ''HEARTBEAT_OK'',
      error = [], duration_seconds = 1\<rparr>"

text \<open>
  A home directory in which neither the project directory nor the log directory
  exists yet, and the default configuration with logging switched off.
\<close>

definition fresh_files :: fs where
  "fresh_files = [[''home''] \<mapsto> Dir, [''home'', ''u''] \<mapsto> Dir]"

definition fresh_state :: state where
  "fresh_state = \<lparr>files = fresh_files, trace = [], heartbeat_md_path = None\<rparr>"

definition quiet_config :: TinManConfig where
  "quiet_config = default_config\<lparr>log_heartbeats := False\<rparr>"

text \<open>
  A logger that keeps two lines, and three results to log.
\<close>

definition small_logger :: HeartbeatLogger where
  "small_logger = example_logger\<lparr>lg_config := default_config\<lparr>max_log_lines := 2\<rparr>\<rparr>"

definition result1 :: result where
  "result1 = example_result\<lparr>timestamp := ''2025-01-01T00:00:00Z''\<rparr>"

definition result2 :: result where
  "result2 = example_result\<lparr>timestamp := ''2025-01-02T00:00:00Z'', status := ''alert''\<rparr>"

definition result3 :: result where
  "result3 = example_result\<lparr>timestamp := ''2025-01-03T00:00:00Z'', status := ''error''\<rparr>"

text \<open>
  A table standing for \<open>json.loads\<close> on the two documents it lists, every other text
  being treated as malformed; and a state whose log holds these two documents followed
  by a line cut short.
\<close>

definition example_loads :: "string \<Rightarrow> (string \<times> string) list option" where
  \<open>example_loads =
     map_of [(''{"status": "ok"}'', [(''status'', ''ok'')]),
             (''{"status": "alert"}'', [(''status'', ''alert'')])]\<close>

definition torn_log_text :: string where
  \<open>torn_log_text =
     ''{"status": "ok"}\<newline>{"status": "alert"}\<newline>{"status": \<newline>''\<close>

definition torn_log_state :: state where
  "torn_log_state =
     example_state\<lparr>files :=
       example_files([''home'', ''u'', ''.tinman'', ''heartbeat.log''] \<mapsto> File torn_log_text)\<rparr>"

definition good_log_text :: string where
  \<open>good_log_text = ''{"status": "ok"}\<newline>{"status": "alert"}\<newline>''\<close>

definition good_log_state :: state where
  "good_log_state =
     example_state\<lparr>files :=
       example_files([''home'', ''u'', ''.tinman'', ''heartbeat.log''] \<mapsto> File good_log_text)\<rparr>"

section \<open>Logging and emitting: what they add to the trace\<close>

lemma rotate_trace [simp]: "trace (rotate_if_needed w lg s) = trace s"
  unfolding rotate_if_needed_def Let_def by (simp split: sum.splits)

lemma logger_log_trace [simp]: "trace (snd (logger_log w lg r s)) = trace s"
  unfolding logger_log_def by (simp split: sum.splits)

lemma logger_log_ok: "fst (logger_log w lg r s) = Inr () \<longleftrightarrow> log_ready w lg (files s)"
  unfolding logger_log_def log_ready_def append_text_def open_write_def
  by (simp split: sum.splits option.splits node.splits)

lemma print_result_trace:
  "\<exists>evs. trace (print_result r s) = trace s @ evs \<and> filter is_log_or_emit evs = [] \<and>
     filter is_exec evs = [] \<and> (\<forall>ev\<in>set evs. carried ev = None \<or> carried ev = Some r)"
  unfolding print_result_def by auto

lemma send_c3poh_trace:
  "\<exists>evs. trace (snd (send_c3poh w rn r s)) = trace s @ evs \<and> filter is_log_or_emit evs = [] \<and>
     filter is_exec evs = [] \<and> (\<forall>ev\<in>set evs. carried ev = None \<or> carried ev = Some r)"
  unfolding send_c3poh_def Let_def by (auto split: option.splits exn.splits)

lemma emit_trace:
  "\<exists>evs. trace (snd (emit w rn r s)) = trace s @ evs \<and> filter is_log_or_emit evs = [] \<and>
     filter is_exec evs = [] \<and> (\<forall>ev\<in>set evs. carried ev = None \<or> carried ev = Some r)"
proof -
  define s1 where "s1 = (if notify_stdout (config rn) then print_result r s else s)"
  obtain e1 where e1: "trace s1 = trace s @ e1" "filter is_log_or_emit e1 = []"
      "filter is_exec e1 = []" "\<forall>ev\<in>set e1. carried ev = None \<or> carried ev = Some r"
    using print_result_trace[of r s] unfolding s1_def by (cases "notify_stdout (config rn)") auto
  show ?thesis
  proof (cases "notify_c3poh (config rn) \<and> c3poh_endpoint (config rn) \<noteq> []")
    case False
    then have "snd (emit w rn r s) = s1" unfolding emit_def s1_def Let_def by auto
    with e1 show ?thesis by auto
  next
    case True
    then have eq: "emit w rn r s = send_c3poh w rn r s1" unfolding emit_def s1_def Let_def by auto
    obtain e2 where e2: "trace (snd (send_c3poh w rn r s1)) = trace s1 @ e2"
        "filter is_log_or_emit e2 = []" "filter is_exec e2 = []"
        "\<forall>ev\<in>set e2. carried ev = None \<or> carried ev = Some r"
      using send_c3poh_trace by blast
    have "trace (snd (emit w rn r s)) = trace s @ (e1 @ e2)" using eq e1 e2 by simp
    moreover have "filter is_log_or_emit (e1 @ e2) = []" using e1 e2 by simp
    moreover have "filter is_exec (e1 @ e2) = []" using e1 e2 by simp
    moreover have "\<forall>ev\<in>set (e1 @ e2). carried ev = None \<or> carried ev = Some r"
      using e1 e2 by auto
    ultimately show ?thesis by blast
  qed
qed

lemma emit_ok: "fst (emit w rn r s) = Inr () \<longleftrightarrow> sink_ok w (config rn) r"
  unfolding emit_def sink_ok_def send_c3poh_def Let_def
  by (simp split: option.splits exn.splits)

lemma log_emit_return_ok:
  assumes "log_ready w (logger rn) (files s)" and "sink_ok w (config rn) r"
  shows "fst (log_emit_return w rn r s) = Inr r \<and>
         (\<exists>evs. trace (snd (log_emit_return w rn r s)) = trace s @ [LogCall r, EmitCall r] @ evs \<and>
            filter is_log_or_emit evs = [] \<and> filter is_exec evs = [] \<and>
            (\<forall>ev\<in>set evs. carried ev = None \<or> carried ev = Some r))"
proof -
  define s0 where "s0 = s\<lparr>trace := trace s @ [LogCall r]\<rparr>"
  obtain u s1 where l: "logger_log w (logger rn) r s0 = (u, s1)" by (cases "logger_log w (logger rn) r s0")
  have "files s0 = files s" unfolding s0_def by simp
  then have "fst (logger_log w (logger rn) r s0) = Inr ()" using assms(1) logger_log_ok by metis
  then have u: "u = Inr ()" using l by simp
  have t1: "trace s1 = trace s @ [LogCall r]"
    using logger_log_trace[of w "logger rn" r s0] l unfolding s0_def by simp
  define s1' where "s1' = s1\<lparr>trace := trace s1 @ [EmitCall r]\<rparr>"
  obtain v s2 where e: "emit w rn r s1' = (v, s2)" by (cases "emit w rn r s1'")
  have v: "v = Inr ()" using emit_ok[of w rn r s1'] assms(2) e by simp
  obtain evs where evs: "trace s2 = trace s1' @ evs" "filter is_log_or_emit evs = []"
      "filter is_exec evs = []" "\<forall>ev\<in>set evs. carried ev = None \<or> carried ev = Some r"
    using emit_trace[of w rn r s1'] e by auto
  have res: "log_emit_return w rn r s = (Inr r, s2)"
    unfolding log_emit_return_def using l u e v s0_def s1'_def by simp
  have "trace s2 = trace s @ [LogCall r, EmitCall r] @ evs"
    using evs(1) t1 unfolding s1'_def by simp
  with res evs show ?thesis by auto
qed

lemma log_emit_return_trace:
  "\<exists>evs. trace (snd (log_emit_return w rn r s)) = trace s @ evs \<and> filter is_exec evs = [] \<and>
     (\<forall>ev\<in>set evs. carried ev = None \<or> carried ev = Some r)"
proof -
  define s0 where "s0 = s\<lparr>trace := trace s @ [LogCall r]\<rparr>"
  obtain u s1 where l: "logger_log w (logger rn) r s0 = (u, s1)" by (cases "logger_log w (logger rn) r s0")
  have t1: "trace s1 = trace s @ [LogCall r]"
    using logger_log_trace[of w "logger rn" r s0] l unfolding s0_def by simp
  show ?thesis
  proof (cases u)
    case (Inl e)
    then have "snd (log_emit_return w rn r s) = s1"
      unfolding log_emit_return_def using l s0_def by simp
    with t1 show ?thesis by simp
  next
    case (Inr x)
    define s1' where "s1' = s1\<lparr>trace := trace s1 @ [EmitCall r]\<rparr>"
    obtain v s2 where e: "emit w rn r s1' = (v, s2)" by (cases "emit w rn r s1'")
    obtain evs where evs: "trace s2 = trace s1' @ evs" "filter is_exec evs = []"
        "\<forall>ev\<in>set evs. carried ev = None \<or> carried ev = Some r"
      using emit_trace[of w rn r s1'] e by auto
    have "snd (log_emit_return w rn r s) = s2"
      unfolding log_emit_return_def using l Inr e s0_def s1'_def by (simp split: sum.splits)
    moreover have "trace s2 = trace s @ ([LogCall r, EmitCall r] @ evs)"
      using evs(1) t1 unfolding s1'_def by simp
    ultimately show ?thesis using evs(2,3) by auto
  qed
qed

lemma log_emit_return_result:
  "fst (log_emit_return w rn r s) = Inr r' \<Longrightarrow> r' = r"
  unfolding log_emit_return_def by (auto split: prod.splits sum.splits)

section \<open>The invocation and the heartbeat, step by step\<close>

lemma invoke_claude_files [simp]: "files (snd (invoke_claude w rn checklist s)) = files s"
  unfolding invoke_claude_def Let_def by (simp split: option.splits sum.splits prod.splits)

lemma invoke_claude_trace:
  "trace (snd (invoke_claude w rn checklist s)) =
     trace s @
     (case which w ''claude'' of
        None \<Rightarrow> []
      | Some b \<Rightarrow>
          if b = [] then []
          else [Exec [b, ''--print'',
                      safety_prefix (config rn) @ ''\<newline>\<newline>---\<newline>\<newline>'' @ checklist]])"
  unfolding invoke_claude_def Let_def by (simp split: option.splits sum.splits prod.splits)

lemma try_invoke_state: "snd (try_invoke w rn checklist r s) = snd (invoke_claude w rn checklist s)"
  unfolding try_invoke_def Let_def by (simp split: prod.splits sum.splits exn.splits)

lemma try_invoke_status:
  "status (fst (try_invoke w rn checklist r s)) \<in> {''ok'', ''alert'', ''error''}"
  unfolding try_invoke_def Let_def by (simp split: prod.splits sum.splits exn.splits)

lemma try_invoke_returned:
  assumes "fst (invoke_claude w rn checklist s) = Inr (out, err)"
  shows "fst (try_invoke w rn checklist r s) =
           r\<lparr>duration_seconds := round2 (time_end w - time_start w),
              output' := out, error := err,
              status := (if err \<noteq> [] \<and> out = [] then ''error''
                         else if contains ''HEARTBEAT_OK'' out then ''ok'' else ''alert'')\<rparr>"
proof -
  obtain s' where "invoke_claude w rn checklist s = (Inr (out, err), s')"
    using assms by (cases "invoke_claude w rn checklist s") simp
  then show ?thesis unfolding try_invoke_def Let_def by simp
qed

lemma try_invoke_raised:
  assumes "fst (invoke_claude w rn checklist s) = Inl e"
  shows "fst (try_invoke w rn checklist r s) =
           r\<lparr>status := ''error'',
              error := (case e of
                          FileNotFoundError m \<Rightarrow>
                            ''claude CLI not found. Install Claude Code: https://claude.ai/code''
                        | _ \<Rightarrow> str_of e),
              duration_seconds := round2 (time_end w - time_start w)\<rparr>"
proof -
  obtain s' where "invoke_claude w rn checklist s = (Inl e, s')"
    using assms by (cases "invoke_claude w rn checklist s") simp
  then show ?thesis unfolding try_invoke_def Let_def by (simp split: exn.splits)
qed

lemma ensure_trace:
  "\<exists>evs. trace (snd (ensure_heartbeat_md w rn s)) = trace s @ evs \<and>
     filter is_log_or_emit evs = [] \<and> filter is_exec evs = [] \<and> (\<forall>ev\<in>set evs. carried ev = None)"
  unfolding ensure_heartbeat_md_def Let_def by (simp split: sum.splits)

lemma run_beat_unfold:
  assumes "ensure_heartbeat_md w rn s = (Inr p, s1)"
    and "read_text (files s1) (abs_of w p) = Inr checklist"
  shows "run_beat w rn s =
     (if py_strip checklist = [] then
        log_emit_return w rn
          \<lparr>timestamp = utcnow w @ ''Z'', status = ''skipped_empty'',
           output' = ''HEARTBEAT.md is empty - skipping run. Add checklist items to enable.'',
           error = [], duration_seconds = 0\<rparr> s1
      else
        log_emit_return w rn
          (fst (try_invoke w rn checklist
             \<lparr>timestamp = utcnow w @ ''Z'', status = ''unknown'', output' = [], error = [],
              duration_seconds = 0\<rparr> s1))
          (snd (invoke_claude w rn checklist s1)))"
proof -
  obtain r' s2 where t: "try_invoke w rn checklist
             \<lparr>timestamp = utcnow w @ ''Z'', status = ''unknown'', output' = [], error = [],
              duration_seconds = 0\<rparr> s1 = (r', s2)"
    by (cases "try_invoke w rn checklist
             \<lparr>timestamp = utcnow w @ ''Z'', status = ''unknown'', output' = [], error = [],
              duration_seconds = 0\<rparr> s1")
  then have "s2 = snd (invoke_claude w rn checklist s1)"
    using try_invoke_state[of w rn checklist _ s1] by (metis snd_conv)
  with t assms show ?thesis unfolding run_beat_def Let_def by simp
qed

lemma run_beat_raises_early:
  "ensure_heartbeat_md w rn s = (Inl e, s1) \<Longrightarrow> run_beat w rn s = (Inl e, s1)"
  "ensure_heartbeat_md w rn s = (Inr p, s1) \<Longrightarrow> read_text (files s1) (abs_of w p) = Inl e
     \<Longrightarrow> run_beat w rn s = (Inl e, s1)"
  unfolding run_beat_def Let_def by simp_all

lemma events_since_append: "trace s' = trace s @ evs \<Longrightarrow> events_since s s' = evs"
  unfolding events_since_def by simp

lemma beat_result_status:
  "status (beat_result w rn checklist s1) \<in> {''ok'', ''alert'', ''error'', ''skipped_empty''}"
  unfolding beat_result_def using try_invoke_status[of w rn checklist _ s1] by auto

lemma run_beat_as_beat_result:
  assumes "ensure_heartbeat_md w rn s = (Inr p, s1)"
    and "read_text (files s1) (abs_of w p) = Inr checklist"
  shows "run_beat w rn s =
           log_emit_return w rn (beat_result w rn checklist s1)
             (if py_strip checklist = [] then s1 else snd (invoke_claude w rn checklist s1))"
  using run_beat_unfold[OF assms] unfolding beat_result_def by simp

lemma run_beat_ok:
  assumes en: "ensure_heartbeat_md w rn s = (Inr p, s1)"
    and rd: "read_text (files s1) (abs_of w p) = Inr checklist"
    and lr: "log_ready w (logger rn) (files s1)"
    and sk: "\<And>r. sink_ok w (config rn) r"
  shows "fst (run_beat w rn s) = Inr (beat_result w rn checklist s1) \<and>
         (\<exists>evs. trace (snd (run_beat w rn s)) = trace s @ evs \<and>
            filter is_log_or_emit evs =
              [LogCall (beat_result w rn checklist s1), EmitCall (beat_result w rn checklist s1)] \<and>
            filter is_exec evs =
              (if py_strip checklist = [] then []
               else case which w ''claude'' of
                      None \<Rightarrow> []
                    | Some b \<Rightarrow>
                        if b = [] then []
                        else [Exec [b, ''--print'',
                                    safety_prefix (config rn) @
                                    ''\<newline>\<newline>---\<newline>\<newline>'' @ checklist]]))"
proof -
  define r where "r = beat_result w rn checklist s1"
  define s2 where "s2 = (if py_strip checklist = [] then s1 else snd (invoke_claude w rn checklist s1))"
  define execs where "execs = (if py_strip checklist = [] then []
               else case which w ''claude'' of
                      None \<Rightarrow> []
                    | Some b \<Rightarrow>
                        if b = [] then []
                        else [Exec [b, ''--print'',
                                    safety_prefix (config rn) @
                                    ''\<newline>\<newline>---\<newline>\<newline>'' @ checklist]])"
  have rb: "run_beat w rn s = log_emit_return w rn r s2"
    using run_beat_as_beat_result[OF en rd] unfolding r_def s2_def .
  obtain e0 where e0: "trace s1 = trace s @ e0" "filter is_log_or_emit e0 = []"
      "filter is_exec e0 = []"
    using ensure_trace[of w rn s] en by auto
  have f2: "files s2 = files s1" unfolding s2_def by simp
  have t2: "trace s2 = trace s1 @ execs"
    unfolding s2_def execs_def by (simp add: invoke_claude_trace)
  have x1: "filter is_log_or_emit execs = []" and x2: "filter is_exec execs = execs"
    unfolding execs_def by (simp_all split: option.splits)
  have "log_ready w (logger rn) (files s2)" using lr f2 by simp
  from log_emit_return_ok[OF this sk, of r]
  obtain evs where ok: "fst (log_emit_return w rn r s2) = Inr r"
      "trace (snd (log_emit_return w rn r s2)) = trace s2 @ [LogCall r, EmitCall r] @ evs"
      "filter is_log_or_emit evs = []" "filter is_exec evs = []"
    by blast
  have "trace (snd (run_beat w rn s)) = trace s @ (e0 @ execs @ [LogCall r, EmitCall r] @ evs)"
    using rb ok(2) t2 e0(1) by simp
  moreover have "filter is_log_or_emit (e0 @ execs @ [LogCall r, EmitCall r] @ evs) =
      [LogCall r, EmitCall r]"
    using e0(2) x1 ok(3) by simp
  moreover have "filter is_exec (e0 @ execs @ [LogCall r, EmitCall r] @ evs) = execs"
    using e0(3) x2 ok(4) by simp
  ultimately have "\<exists>evs. trace (snd (run_beat w rn s)) = trace s @ evs \<and>
      filter is_log_or_emit evs = [LogCall r, EmitCall r] \<and> filter is_exec evs = execs"
    by blast
  moreover have "fst (run_beat w rn s) = Inr r" using rb ok(1) by simp
  ultimately show ?thesis unfolding r_def execs_def by simp
qed

lemma run_beat_carries:
  "\<exists>evs. trace (snd (run_beat w rn s)) = trace s @ evs \<and>
     (\<forall>ev\<in>set evs. \<forall>r. carried ev = Some r \<longrightarrow>
        status r \<in> {''ok'', ''alert'', ''error'', ''skipped_empty''}) \<and>
     (\<forall>r. fst (run_beat w rn s) = Inr r \<longrightarrow>
        status r \<in> {''ok'', ''alert'', ''error'', ''skipped_empty''})"
proof -
  obtain o1 s1 where en: "ensure_heartbeat_md w rn s = (o1, s1)"
    by (cases "ensure_heartbeat_md w rn s")
  obtain e0 where e0: "trace s1 = trace s @ e0" "\<forall>ev\<in>set e0. carried ev = None"
    using ensure_trace[of w rn s] en by auto
  show ?thesis
  proof (cases o1)
    case (Inl e)
    then have "run_beat w rn s = (Inl e, s1)" using en run_beat_raises_early(1) by simp
    with e0 show ?thesis by auto
  next
    case (Inr p)
    show ?thesis
    proof (cases "read_text (files s1) (abs_of w p)")
      case (Inl e)
      then have "run_beat w rn s = (Inl e, s1)" using en Inr run_beat_raises_early(2) by simp
      with e0 show ?thesis by auto
    next
      case rd: (Inr checklist)
      define r where "r = beat_result w rn checklist s1"
      define s2 where "s2 = (if py_strip checklist = [] then s1 else snd (invoke_claude w rn checklist s1))"
      have rb: "run_beat w rn s = log_emit_return w rn r s2"
        using run_beat_as_beat_result[OF _ rd] en Inr unfolding r_def s2_def by simp
      have st: "status r \<in> {''ok'', ''alert'', ''error'', ''skipped_empty''}"
        unfolding r_def by (rule beat_result_status)
      have "\<exists>execs. trace s2 = trace s1 @ execs \<and> (\<forall>ev\<in>set execs. carried ev = None)"
        unfolding s2_def by (auto simp: invoke_claude_trace split: option.splits)
      then obtain execs where t2: "trace s2 = trace s1 @ execs" "\<forall>ev\<in>set execs. carried ev = None"
        by blast
      obtain evs where ev: "trace (snd (log_emit_return w rn r s2)) = trace s2 @ evs"
          "\<forall>ev\<in>set evs. carried ev = None \<or> carried ev = Some r"
        using log_emit_return_trace[of w rn r s2] by blast
      have "trace (snd (run_beat w rn s)) = trace s @ (e0 @ execs @ evs)"
        using rb ev(1) t2(1) e0(1) by simp
      moreover have "\<forall>ev\<in>set (e0 @ execs @ evs). \<forall>r'. carried ev = Some r' \<longrightarrow>
          status r' \<in> {''ok'', ''alert'', ''error'', ''skipped_empty''}"
        using e0(2) t2(2) ev(2) st by auto
      moreover have "\<forall>r'. fst (run_beat w rn s) = Inr r' \<longrightarrow>
          status r' \<in> {''ok'', ''alert'', ''error'', ''skipped_empty''}"
        using rb log_emit_return_result[of w rn r s2] st by auto
      ultimately show ?thesis by blast
    qed
  qed
qed

lemma invoke_claude_completed:
  assumes "which w ''claude'' = Some bin" and "bin \<noteq> []"
    and "subprocess_run w
           [bin, ''--print'',
            safety_prefix (config rn) @ ''\<newline>\<newline>---\<newline>\<newline>'' @ checklist] =
         Inr (stdout, stderr)"
  shows "fst (invoke_claude w rn checklist s) = Inr (py_strip stdout, py_strip stderr)"
  using assms unfolding invoke_claude_def Let_def by simp

lemma invoke_claude_not_found:
  assumes "which w ''claude'' = None"
  shows "fst (invoke_claude w rn checklist s) = Inl (FileNotFoundError ''claude'')"
  using assms unfolding invoke_claude_def by simp

section \<open>Creating directories\<close>

lemma mkdirs_result:
  "mkdirs fs base cs = Inr fs' \<Longrightarrow>
     fs' = (\<lambda>q. if (\<exists>r. r \<noteq> [] \<and> prefix r cs \<and> q = base @ r) \<and> fs q = None
                then Some Dir else fs q)"
proof (induction cs arbitrary: fs base)
  case Nil
  then show ?case by auto
next
  case (Cons c cs)
  have ex: "(\<exists>r. r \<noteq> [] \<and> prefix r (c # cs) \<and> q = base @ r) \<longleftrightarrow>
        (q = base @ [c] \<or> (\<exists>r. r \<noteq> [] \<and> prefix r cs \<and> q = (base @ [c]) @ r))" for q
  proof
    assume "\<exists>r. r \<noteq> [] \<and> prefix r (c # cs) \<and> q = base @ r"
    then obtain r where r: "r \<noteq> []" "prefix r (c # cs)" "q = base @ r" by blast
    then obtain r' where r': "r = c # r'" "prefix r' cs" by (auto simp: prefix_Cons)
    show "q = base @ [c] \<or> (\<exists>r. r \<noteq> [] \<and> prefix r cs \<and> q = (base @ [c]) @ r)"
      using r r' by (cases "r' = []") auto
  next
    assume "q = base @ [c] \<or> (\<exists>r. r \<noteq> [] \<and> prefix r cs \<and> q = (base @ [c]) @ r)"
    then show "\<exists>r. r \<noteq> [] \<and> prefix r (c # cs) \<and> q = base @ r"
    proof
      assume "q = base @ [c]"
      then have "[c] \<noteq> [] \<and> prefix [c] (c # cs) \<and> q = base @ [c]" by simp
      then show ?thesis by blast
    next
      assume "\<exists>r. r \<noteq> [] \<and> prefix r cs \<and> q = (base @ [c]) @ r"
      then obtain r where "r \<noteq> []" "prefix r cs" "q = (base @ [c]) @ r" by blast
      then have "c # r \<noteq> [] \<and> prefix (c # r) (c # cs) \<and> q = base @ (c # r)" by simp
      then show ?thesis by blast
    qed
  qed
  show ?case
  proof (cases "fs (base @ [c])")
    case None
    with Cons.prems have "mkdirs (fs(base @ [c] \<mapsto> Dir)) (base @ [c]) cs = Inr fs'" by simp
    from Cons.IH[OF this] show ?thesis
      by (auto simp: ex fun_eq_iff None)
  next
    case (Some n)
    with Cons.prems obtain "n = Dir" "mkdirs fs (base @ [c]) cs = Inr fs'"
      by (cases n) auto
    with Cons.IH[of fs "base @ [c]"] Some show ?thesis
      by (auto simp: ex fun_eq_iff)
  qed
qed

lemma mkdirs_succeeds:
  "(\<forall>r t. r \<noteq> [] \<and> prefix r cs \<longrightarrow> fs (base @ r) \<noteq> Some (File t)) \<Longrightarrow>
     \<exists>fs'. mkdirs fs base cs = Inr fs'"
proof (induction cs arbitrary: fs base)
  case Nil
  then show ?case by simp
next
  case (Cons c cs)
  have here: "\<forall>t. fs (base @ [c]) \<noteq> Some (File t)"
    using Cons.prems[rule_format, of "[c]"] by simp
  have below: "\<forall>r t. r \<noteq> [] \<and> prefix r cs \<longrightarrow> fs ((base @ [c]) @ r) \<noteq> Some (File t)"
    using Cons.prems by (auto dest: spec[of _ "c # r" for r])
  show ?case
  proof (cases "fs (base @ [c])")
    case None
    have "\<forall>r t. r \<noteq> [] \<and> prefix r cs \<longrightarrow>
        (fs(base @ [c] \<mapsto> Dir)) ((base @ [c]) @ r) \<noteq> Some (File t)"
      using below by simp
    from Cons.IH[OF this] obtain fs' where
      "mkdirs (fs(base @ [c] \<mapsto> Dir)) (base @ [c]) cs = Inr fs'" by blast
    then have "mkdirs fs base (c # cs) = Inr fs'" using None by simp
    then show ?thesis by blast
  next
    case (Some n)
    with here have "n = Dir" by (cases n) auto
    from Cons.IH[OF below] obtain fs' where "mkdirs fs (base @ [c]) cs = Inr fs'" by blast
    then have "mkdirs fs base (c # cs) = Inr fs'" using Some \<open>n = Dir\<close> by simp
    then show ?thesis by blast
  qed
qed

lemma mkdir_parents_ok:
  assumes "\<forall>q t. q \<noteq> [] \<and> prefix q p \<longrightarrow> fs q \<noteq> Some (File t)"
  shows "mkdir_parents fs p =
           Inr (\<lambda>q. if q \<noteq> [] \<and> prefix q p \<and> fs q = None then Some Dir else fs q)"
proof -
  have "\<forall>r t. r \<noteq> [] \<and> prefix r p \<longrightarrow> fs ([] @ r) \<noteq> Some (File t)" using assms by simp
  from mkdirs_succeeds[OF this] obtain fs' where f: "mkdirs fs [] p = Inr fs'" by blast
  from mkdirs_result[OF f] have "fs' = (\<lambda>q. if q \<noteq> [] \<and> prefix q p \<and> fs q = None then Some Dir else fs q)"
    by (auto simp: fun_eq_iff)
  with f show ?thesis unfolding mkdir_parents_def by simp
qed

lemma resolved_abs: "\<exists>cs. resolved w p0 = AbsPath cs"
  unfolding resolved_def by (cases p0) simp_all

section \<open>Lines of a text\<close>

lemma linebreak_consts [simp]:
  "is_linebreak (CHR 0x0A)" "is_linebreak (CHR 0x0D)"
  by (simp_all add: is_linebreak_def)

lemma splitlines_from_line:
  assumes "\<forall>c\<in>set l. \<not> is_linebreak c"
  shows "splitlines_from k cur (l @ CHR 0x0A # rest) =
           (cur @ l @ (if k then [CHR 0x0A] else [])) # splitlines_from k [] rest"
  using assms
proof (induction l arbitrary: cur)
  case Nil
  show ?case by (cases rest) simp_all
next
  case (Cons a l)
  have a: "\<not> is_linebreak a" and l: "\<forall>c\<in>set l. \<not> is_linebreak c" using Cons.prems by simp_all
  have ncr: "a \<noteq> CHR 0x0D" using a by auto
  obtain d cs where t: "l @ CHR 0x0A # rest = d # cs" by (cases l) simp_all
  have "splitlines_from k cur ((a # l) @ CHR 0x0A # rest) = splitlines_from k cur (a # d # cs)"
    using t by simp
  also have "\<dots> = splitlines_from k (cur @ [a]) (d # cs)" using a ncr by simp
  also have "\<dots> = splitlines_from k (cur @ [a]) (l @ CHR 0x0A # rest)" using t by simp
  also have "\<dots> = ((cur @ [a]) @ l @ (if k then [CHR 0x0A] else [])) # splitlines_from k [] rest"
    by (rule Cons.IH[OF l])
  finally show ?case by simp
qed

lemma splitlines_lines:
  assumes "\<forall>l\<in>set ls. \<forall>c\<in>set l. \<not> is_linebreak c"
  shows "splitlines k (concat (map (\<lambda>l. l @ ''\<newline>'') ls)) =
           map (\<lambda>l. l @ (if k then ''\<newline>'' else [])) ls"
  using assms unfolding splitlines_def
proof (induction ls)
  case Nil
  then show ?case by simp
next
  case (Cons l ls)
  have "splitlines_from k [] (l @ CHR 0x0A # concat (map (\<lambda>l. l @ ''\<newline>'') ls)) =
      ([] @ l @ (if k then [CHR 0x0A] else [])) #
      splitlines_from k [] (concat (map (\<lambda>l. l @ ''\<newline>'') ls))"
    by (rule splitlines_from_line) (use Cons.prems in simp)
  with Cons show ?case by simp
qed

lemma lastn_short: "length xs \<le> n \<Longrightarrow> lastn n xs = xs"
  unfolding lastn_def by simp

lemma length_lastn [simp]: "length (lastn n xs) = min (length xs) n"
  unfolding lastn_def by auto

lemma lastn_lastn_append: "lastn n (lastn n xs @ ys) = lastn n (xs @ ys)"
  unfolding lastn_def by (cases "length xs \<le> n") (auto simp: min_def add.commute)

lemma set_lastn: "set (lastn n xs) \<subseteq> set xs"
  unfolding lastn_def by (rule set_drop_subset)

lemma slice_from_neg:
  "0 < m \<Longrightarrow> int (length xs) > m \<Longrightarrow> slice_from (- m) xs = lastn (nat m) xs"
proof -
  assume a: "0 < m" "int (length xs) > m"
  have "nat (- m + int (length xs)) = length xs - nat m" using a by linarith
  then show ?thesis unfolding slice_from_def lastn_def Let_def using a by (simp add: max_def)
qed

section \<open>Appending and rotating\<close>

lemma rotate_lines:
  assumes "q = abs_of w (log_path lg)" and "q \<noteq> []"
    and "files s q = Some (File (concat (map (\<lambda>l. l @ ''\<newline>'') ls)))"
    and "\<forall>l\<in>set ls. \<forall>c\<in>set l. \<not> is_linebreak c"
    and "0 < max_log_lines (lg_config lg)"
  shows "files (rotate_if_needed w lg s) q =
           Some (File (concat (map (\<lambda>l. l @ ''\<newline>'')
                                (lastn (nat (max_log_lines (lg_config lg))) ls))))"
proof -
  let ?m = "max_log_lines (lg_config lg)"
  let ?f = "\<lambda>l. l @ ''\<newline>''"
  have rd: "read_text (files s) q = Inr (concat (map ?f ls))"
    unfolding read_text_def node_at_def using assms(2,3) by simp
  have sl: "splitlines True (concat (map ?f ls)) = map ?f ls"
    using splitlines_lines[OF assms(4), of True] by simp
  show ?thesis
  proof (cases "int (length ls) > ?m")
    case False
    then have "rotate_if_needed w lg s = s"
      unfolding rotate_if_needed_def Let_def using rd sl assms(1) by simp
    moreover have "lastn (nat ?m) ls = ls" using False by (intro lastn_short) linarith
    ultimately show ?thesis using assms(3) by simp
  next
    case True
    have keep: "slice_from (- ?m) (map ?f ls) = map ?f (lastn (nat ?m) ls)"
      using slice_from_neg[OF assms(5), of "map ?f ls"] True
      by (simp add: lastn_def drop_map)
    have wr: "write_text (files s) q t = Inr ((files s)(q \<mapsto> File t))" for t
      unfolding write_text_def open_write_def node_at_def using assms(2,3) by simp
    have "rotate_if_needed w lg s =
        s\<lparr>files := (files s)(q \<mapsto> File (concat (map ?f (lastn (nat ?m) ls))))\<rparr>"
      unfolding rotate_if_needed_def Let_def using rd sl assms(1) True keep wr by simp
    then show ?thesis by simp
  qed
qed

lemma logger_log_lines:
  assumes en: "log_heartbeats (lg_config lg)" and m: "0 < max_log_lines (lg_config lg)"
    and q: "q = abs_of w (log_path lg)"
    and h: "holds_lines (files s) q ls"
    and nb: "\<forall>l\<in>set ls. \<forall>c\<in>set l. \<not> is_linebreak c"
    and nr: "\<forall>c\<in>set (json_dumps w r). \<not> is_linebreak c"
  shows "fst (logger_log w lg r s) = Inr () \<and>
         holds_lines (files (snd (logger_log w lg r s))) q
           (lastn (nat (max_log_lines (lg_config lg))) (ls @ [json_dumps w r]))"
proof -
  let ?f = "\<lambda>l. l @ ''\<newline>''"
  have qn: "q \<noteq> []" using h unfolding holds_lines_def by simp
  have ap: "append_text (files s) q (json_dumps w r @ ''\<newline>'') =
      Inr ((files s)(q \<mapsto> File (concat (map ?f (ls @ [json_dumps w r])))))"
    using h unfolding holds_lines_def append_text_def open_write_def node_at_def
    by (auto simp: qn)
  define s1 where "s1 = s\<lparr>files := (files s)(q \<mapsto> File (concat (map ?f (ls @ [json_dumps w r]))))\<rparr>"
  have ll: "logger_log w lg r s = (Inr (), rotate_if_needed w lg s1)"
    unfolding logger_log_def s1_def using en ap q by simp
  have "files s1 q = Some (File (concat (map ?f (ls @ [json_dumps w r]))))"
    unfolding s1_def by simp
  moreover have "\<forall>l\<in>set (ls @ [json_dumps w r]). \<forall>c\<in>set l. \<not> is_linebreak c"
    using nb nr by simp
  ultimately have "files (rotate_if_needed w lg s1) q =
      Some (File (concat (map ?f (lastn (nat (max_log_lines (lg_config lg))) (ls @ [json_dumps w r])))))"
    using rotate_lines[OF q qn _ _ m] by blast
  then show ?thesis using ll qn unfolding holds_lines_def by simp
qed

lemma log_all_lines:
  assumes en: "log_heartbeats (lg_config lg)" and m: "0 < max_log_lines (lg_config lg)"
    and q: "q = abs_of w (log_path lg)"
  shows "holds_lines (files s) q ls \<Longrightarrow> length ls \<le> nat (max_log_lines (lg_config lg)) \<Longrightarrow>
         \<forall>l\<in>set ls. \<forall>c\<in>set l. \<not> is_linebreak c \<Longrightarrow>
         \<forall>r\<in>set rs. \<forall>c\<in>set (json_dumps w r). \<not> is_linebreak c \<Longrightarrow>
         fst (log_all w lg rs s) = Inr () \<and>
         holds_lines (files (snd (log_all w lg rs s))) q
           (lastn (nat (max_log_lines (lg_config lg))) (ls @ map (json_dumps w) rs))"
proof (induction rs arbitrary: s ls)
  case Nil
  then show ?case by (simp add: lastn_short)
next
  case (Cons r rs)
  let ?m = "nat (max_log_lines (lg_config lg))"
  let ?ls1 = "lastn ?m (ls @ [json_dumps w r])"
  obtain s1 where l1: "logger_log w lg r s = (Inr (), s1)" and h1: "holds_lines (files s1) q ?ls1"
    using logger_log_lines[OF en m q Cons.prems(1,3), of r] Cons.prems(4)
    by (cases "logger_log w lg r s") auto
  have nb1: "\<forall>l\<in>set ?ls1. \<forall>c\<in>set l. \<not> is_linebreak c"
    using set_lastn[of ?m "ls @ [json_dumps w r]"] Cons.prems(3,4) by auto
  have "length ?ls1 \<le> ?m" by simp
  from Cons.IH[OF h1 this nb1] Cons.prems(4)
  have "fst (log_all w lg rs s1) = Inr () \<and>
        holds_lines (files (snd (log_all w lg rs s1))) q (lastn ?m (?ls1 @ map (json_dumps w) rs))"
    by simp
  moreover have "lastn ?m (?ls1 @ map (json_dumps w) rs) =
      lastn ?m (ls @ map (json_dumps w) (r # rs))"
    by (simp add: lastn_lastn_append)
  moreover have "log_all w lg (r # rs) s = log_all w lg rs s1" using l1 by simp
  ultimately show ?case by simp
qed

lemma holds_lines_log_lines:
  assumes "holds_lines fs q ls" and "\<forall>l\<in>set ls. \<forall>c\<in>set l. \<not> is_linebreak c"
  shows "log_lines fs q = ls"
proof -
  have "splitlines False (concat (map (\<lambda>l. l @ ''\<newline>'') ls)) = ls"
    using splitlines_lines[OF assms(2), of False] by simp
  then show ?thesis
    using assms(1) unfolding holds_lines_def log_lines_def node_at_def by auto
qed

section \<open>Reading the log back\<close>

lemma tail_loop_map_filter:
  "tail_loop loads ls entries = entries @ List.map_filter (decode_line loads) ls"
  by (induction ls arbitrary: entries)
     (simp_all add: List.map_filter_simps decode_line_def split: option.splits)

lemma slice_from_lastn: "0 < n \<Longrightarrow> slice_from (- n) xs = lastn (nat n) xs"
proof -
  assume a: "0 < n"
  have "nat (max 0 (- n + int (length xs))) = length xs - nat n" using a by linarith
  then show ?thesis unfolding slice_from_def lastn_def Let_def using a by simp
qed

lemma map_filter_append:
  "List.map_filter f (xs @ ys) = List.map_filter f xs @ List.map_filter f ys"
  by (simp add: List.map_filter_def)

lemma suffix_lastn: "suffix (lastn n xs) xs"
  unfolding lastn_def by (rule suffix_drop)

lemma suffix_map_filter: "suffix xs ys \<Longrightarrow> suffix (List.map_filter f xs) (List.map_filter f ys)"
  unfolding suffix_def by (auto simp: map_filter_append)

lemma length_map_filter_le: "length (List.map_filter f xs) \<le> length xs"
  unfolding List.map_filter_def by (simp add: le_trans[OF length_filter_le])

lemma map_filter_all: "\<forall>x\<in>set xs. f x \<noteq> None \<Longrightarrow> length (List.map_filter f xs) = length xs"
  by (induction xs) (auto simp: List.map_filter_simps split: option.splits)

lemma lastn_append_long: "n \<le> length ys \<Longrightarrow> lastn n (xs @ ys) = lastn n ys"
  unfolding lastn_def by simp

lemma lastn_map_filter_window:
  assumes "\<forall>x\<in>set (lastn n xs). f x \<noteq> None"
  shows "lastn n (List.map_filter f xs) = List.map_filter f (lastn n xs)"
proof -
  have sp: "xs = take (length xs - n) xs @ lastn n xs" unfolding lastn_def by simp
  have len: "length (List.map_filter f (lastn n xs)) = min (length xs) n"
    using map_filter_all[OF assms] by simp
  show ?thesis
  proof (cases "n \<le> length xs")
    case True
    then have "n \<le> length (List.map_filter f (lastn n xs))" using len by simp
    then have "lastn n (List.map_filter f (take (length xs - n) xs) @ List.map_filter f (lastn n xs)) =
        lastn n (List.map_filter f (lastn n xs))"
      by (rule lastn_append_long)
    moreover have "lastn n (List.map_filter f (lastn n xs)) = List.map_filter f (lastn n xs)"
      using len by (intro lastn_short) simp
    ultimately show ?thesis using sp map_filter_append[of f "take (length xs - n) xs" "lastn n xs"]
      by simp
  next
    case False
    then have "lastn n xs = xs" by (intro lastn_short) simp
    moreover have "lastn n (List.map_filter f xs) = List.map_filter f xs"
      using False length_map_filter_le[of f xs] by (intro lastn_short) simp
    ultimately show ?thesis by simp
  qed
qed

section \<open>The example environment, evaluated\<close>

lemma example_ensure:
  "ensure_heartbeat_md w example_runner example_state =
     (Inr (AbsPath [''home'', ''u'', ''proj'', ''HEARTBEAT.md'']),
      example_state\<lparr>heartbeat_md_path :=
        Some (AbsPath [''home'', ''u'', ''proj'', ''HEARTBEAT.md''])\<rparr>)"
  if "cwd w = [''home'', ''u'', ''proj'']"
  using that
  by (simp add: ensure_heartbeat_md_def example_runner_def example_state_def
      default_config_def example_files_def path_exists_def node_at_def Let_def)

lemma example_read:
  "read_text (files (example_state\<lparr>heartbeat_md_path := hp\<rparr>))
     (abs_of w (AbsPath [''home'', ''u'', ''proj'', ''HEARTBEAT.md''])) =
   Inr ''Check the disk.\<newline>''"
  by (simp add: read_text_def example_state_def example_files_def node_at_def)

lemma example_log_ready:
  "log_ready w (logger example_runner) (files (example_state\<lparr>heartbeat_md_path := hp\<rparr>))"
  by (simp add: log_ready_def example_runner_def example_logger_def example_state_def
      example_files_def node_at_def default_config_def)

lemma example_sink_ok: "sink_ok w (config example_runner) r"
  by (simp add: sink_ok_def example_runner_def default_config_def)

lemma example_checklist_not_blank: "py_strip ''Check the disk.\<newline>'' \<noteq> []"
  by (simp add: py_strip_def isspace_def)


lemma no_tool_world_facts:
  "cwd no_tool_world = [''home'', ''u'', ''proj'']"
  "utcnow no_tool_world = ''2025-01-01T00:00:00''"
  "time_end no_tool_world - time_start no_tool_world = 1"
  "which no_tool_world ''claude'' = None"
  by (simp_all add: no_tool_world_def example_world_def)

section \<open>The claims\<close>

subsection \<open>C1: classification of a completed invocation\<close>

text \<open>
  Claim C1.  When the checklist can be read and is not blank, the tool is found and the
  child process completes with captured output \<open>stdout\<close> and \<open>stderr\<close>, \<open>run_beat\<close>
  returns the result whose output is the trimmed \<open>stdout\<close>, whose error is the trimmed
  \<open>stderr\<close>, and whose status is \<open>error\<close> if the trimmed \<open>stderr\<close> is non-empty and the
  trimmed \<open>stdout\<close> is empty, otherwise \<open>ok\<close> if the trimmed \<open>stdout\<close> contains
  \<open>HEARTBEAT_OK\<close>, otherwise \<open>alert\<close>.  The test for \<open>error\<close> is made on the trimmed
  texts, not on the captured ones: with nothing on the output stream and a blank line on
  the error stream the status is \<open>alert\<close>.
\<close>

theorem run_beat_classifies_trimmed_output:
  assumes "ensure_heartbeat_md w rn s = (Inr p, s1)"
    and "read_text (files s1) (abs_of w p) = Inr checklist"
    and "py_strip checklist \<noteq> []"
    and "which w ''claude'' = Some bin"
    and "bin \<noteq> []"
    and "subprocess_run w
           [bin, ''--print'',
            safety_prefix (config rn) @ ''\<newline>\<newline>---\<newline>\<newline>'' @ checklist] =
         Inr (stdout, stderr)"
    and "log_ready w (logger rn) (files s1)"
    and "\<And>r. sink_ok w (config rn) r"
  shows "fst (run_beat w rn s) =
           Inr \<lparr>timestamp = utcnow w @ ''Z'',
                status = (if py_strip stderr \<noteq> [] \<and> py_strip stdout = [] then ''error''
                          else if contains ''HEARTBEAT_OK'' (py_strip stdout) then ''ok''
                          else ''alert''),
                output' = py_strip stdout,
                error = py_strip stderr,
                duration_seconds = round2 (time_end w - time_start w)\<rparr>"
proof -
  have "fst (invoke_claude w rn checklist s1) = Inr (py_strip stdout, py_strip stderr)"
    using assms(4,5,6) by (rule invoke_claude_completed)
  from try_invoke_returned[OF this]
  have "beat_result w rn checklist s1 =
      \<lparr>timestamp = utcnow w @ ''Z'',
                status = (if py_strip stderr \<noteq> [] \<and> py_strip stdout = [] then ''error''
                          else if contains ''HEARTBEAT_OK'' (py_strip stdout) then ''ok''
                          else ''alert''),
                output' = py_strip stdout,
                error = py_strip stderr,
                duration_seconds = round2 (time_end w - time_start w)\<rparr>"
    unfolding beat_result_def using assms(3) by simp
  with run_beat_ok[OF assms(1,2,7,8)] show ?thesis by simp
qed

theorem run_beat_classifies_trimmed_output_witness:
  "fst (run_beat example_world example_runner example_state) =
     Inr \<lparr>timestamp = ''2025-01-01T00:00:00Z'', status = ''ok'', output' = ''HEARTBEAT_OK'',
          error = [], duration_seconds = 1\<rparr>"
proof -
  have c: "cwd example_world = [''home'', ''u'', ''proj'']" by (simp add: example_world_def)
  have w: "which example_world ''claude'' = Some ''/usr/local/bin/claude''"
    by (simp add: example_world_def)
  have b: "''/usr/local/bin/claude'' \<noteq> []" by simp
  have r: "subprocess_run example_world
           [''/usr/local/bin/claude'', ''--print'',
            safety_prefix (config example_runner) @ ''\<newline>\<newline>---\<newline>\<newline>'' @
            ''Check the disk.\<newline>''] =
         Inr (''HEARTBEAT_OK\<newline>'', [])"
    by (simp add: example_world_def)
  have t: "utcnow example_world = ''2025-01-01T00:00:00''"
      "time_end example_world - time_start example_world = 1"
    by (simp_all add: example_world_def)
  have r2: "round2 1 = 1" by code_simp
  have st: "py_strip ''HEARTBEAT_OK\<newline>'' = ''HEARTBEAT_OK''" "py_strip [] = []"
    by (simp_all add: py_strip_def isspace_def)
  show ?thesis
    using run_beat_classifies_trimmed_output[OF example_ensure[OF c] example_read
        example_checklist_not_blank w b r example_log_ready example_sink_ok]
    by (simp add: t r2 st)
qed

theorem captured_blank_stderr_counterexample:
  "subprocess_run blank_stderr_world
     [''/usr/local/bin/claude'', ''--print'',
      safety_prefix (config example_runner) @ ''\<newline>\<newline>---\<newline>\<newline>'' @
      ''Check the disk.\<newline>''] = Inr ([], ''\<newline>'') \<and>
   fst (run_beat blank_stderr_world example_runner example_state) =
     Inr \<lparr>timestamp = ''2025-01-01T00:00:00Z'', status = ''alert'', output' = [], error = [],
          duration_seconds = 1\<rparr>"
  by code_simp

subsection \<open>C2: every exit of the heartbeat logs and emits once\<close>




subsection \<open>C3: the log keeps the most recent lines\<close>

text \<open>
  Claim C3.  With logging enabled and a positive \<open>max_log_lines = m\<close>, starting from a
  log file that is empty or not yet created, after \<open>k\<close> calls of the logger on results
  whose rendering holds no line break, no call has raised, and the lines of the log
  file are the renderings of the last \<open>min k m\<close> results, in the order they were logged.
\<close>

theorem log_keeps_most_recent_lines:
  assumes "log_heartbeats (lg_config lg)"
    and "0 < max_log_lines (lg_config lg)"
    and "node_at (files s) (abs_of w (log_path lg)) = Some (File []) \<or>
         node_at (files s) (abs_of w (log_path lg)) = None \<and>
         node_at (files s) (butlast (abs_of w (log_path lg))) = Some Dir"
    and "\<forall>r\<in>set rs. \<forall>c\<in>set (json_dumps w r). \<not> is_linebreak c"
  shows "fst (log_all w lg rs s) = Inr () \<and>
         log_lines (files (snd (log_all w lg rs s))) (abs_of w (log_path lg)) =
           map (json_dumps w) (drop (length rs - nat (max_log_lines (lg_config lg))) rs) \<and>
         length (log_lines (files (snd (log_all w lg rs s))) (abs_of w (log_path lg))) =
           min (length rs) (nat (max_log_lines (lg_config lg)))"
proof -
  let ?q = "abs_of w (log_path lg)"
  let ?m = "nat (max_log_lines (lg_config lg))"
  have h0: "holds_lines (files s) ?q []"
    using assms(3) unfolding holds_lines_def node_at_def by (auto split: if_splits)
  have "fst (log_all w lg rs s) = Inr () \<and>
        holds_lines (files (snd (log_all w lg rs s))) ?q (lastn ?m ([] @ map (json_dumps w) rs))"
    by (rule log_all_lines[OF assms(1,2) refl h0]) (use assms(4) in simp_all)
  then have ok: "fst (log_all w lg rs s) = Inr ()"
    and h: "holds_lines (files (snd (log_all w lg rs s))) ?q (lastn ?m (map (json_dumps w) rs))"
    by simp_all
  have "\<forall>l\<in>set (lastn ?m (map (json_dumps w) rs)). \<forall>c\<in>set l. \<not> is_linebreak c"
    using set_lastn[of ?m "map (json_dumps w) rs"] assms(4) by auto
  from holds_lines_log_lines[OF h this]
  have "log_lines (files (snd (log_all w lg rs s))) ?q = lastn ?m (map (json_dumps w) rs)" .
  moreover have "lastn ?m (map (json_dumps w) rs) = map (json_dumps w) (drop (length rs - ?m) rs)"
    by (simp add: lastn_def drop_map)
  ultimately show ?thesis using ok by simp
qed

theorem log_keeps_most_recent_lines_witness:
  \<open>log_lines
     (files (snd (log_all example_world small_logger [result1, result2, result3] example_state)))
     [''home'', ''u'', ''.tinman'', ''heartbeat.log''] =
   [''{"timestamp": "2025-01-02T00:00:00Z", "status": "alert"}'',
    ''{"timestamp": "2025-01-03T00:00:00Z", "status": "error"}''] \<and>
   length (log_lines
     (files (snd (log_all example_world small_logger [result1, result2, result3] example_state)))
     [''home'', ''u'', ''.tinman'', ''heartbeat.log'']) = 2\<close>
proof -
  have a: "log_heartbeats (lg_config small_logger)" "0 < max_log_lines (lg_config small_logger)"
    "nat (max_log_lines (lg_config small_logger)) = 2"
    "abs_of example_world (log_path small_logger) = [''home'', ''u'', ''.tinman'', ''heartbeat.log'']"
    by (simp_all add: small_logger_def example_logger_def default_config_def)
  have b: "node_at (files example_state) (abs_of example_world (log_path small_logger)) =
             Some (File []) \<or>
           node_at (files example_state) (abs_of example_world (log_path small_logger)) = None \<and>
           node_at (files example_state) (butlast (abs_of example_world (log_path small_logger))) =
             Some Dir"
    by (simp add: a node_at_def example_state_def example_files_def)
  have d: \<open>json_dumps example_world result1 =
             ''{"timestamp": "2025-01-01T00:00:00Z", "status": "ok"}''\<close>
    \<open>json_dumps example_world result2 =
             ''{"timestamp": "2025-01-02T00:00:00Z", "status": "alert"}''\<close>
    \<open>json_dumps example_world result3 =
             ''{"timestamp": "2025-01-03T00:00:00Z", "status": "error"}''\<close>
    by (simp_all add: example_world_def example_dumps_def result1_def result2_def result3_def
        example_result_def)
  have c: "\<forall>r\<in>set [result1, result2, result3].
             \<forall>c\<in>set (json_dumps example_world r). \<not> is_linebreak c"
    by (simp add: d is_linebreak_def)
  show ?thesis
    using log_keeps_most_recent_lines[OF a(1,2) b c]
    by (simp add: a d)
qed

subsection \<open>C4: the tail of the log\<close>

text \<open>
  Claim C4.  For every \<open>n\<close> of at least one, \<open>tail n\<close> returns an empty list when the
  log file does not exist, and otherwise never raises and returns, oldest first, the
  entries decoded from the last \<open>n\<close> lines of the file (from all its lines when there
  are fewer), blank and malformed lines among these being skipped.  The entries returned
  are therefore at most \<open>n\<close> and are the most recent of the entries that decode; they
  are the last \<open>n\<close> such entries whenever every line read decodes.  A malformed line
  among the last \<open>n\<close> lines does take one of the \<open>n\<close> places: of two entries followed by
  a line cut short, \<open>tail 2\<close> returns the second entry alone.
\<close>

theorem tail_reads_last_lines:
  assumes "0 < n"
  shows "(node_at (files s) (abs_of w (log_path lg)) = None \<longrightarrow> tail w loads lg n s = Inr []) \<and>
         (\<forall>text. node_at (files s) (abs_of w (log_path lg)) = Some (File text) \<longrightarrow>
            tail w loads lg n s =
              Inr (List.map_filter (decode_line loads) (lastn (nat n) (splitlines False text))) \<and>
            length (List.map_filter (decode_line loads) (lastn (nat n) (splitlines False text)))
              \<le> nat n \<and>
            suffix (List.map_filter (decode_line loads) (lastn (nat n) (splitlines False text)))
                   (List.map_filter (decode_line loads) (splitlines False text)) \<and>
            ((\<forall>l\<in>set (lastn (nat n) (splitlines False text)). decode_line loads l \<noteq> None) \<longrightarrow>
               tail w loads lg n s = Inr (tail_by_spec loads n text)))"
proof -
  have missing: "tail w loads lg n s = Inr []"
    if "node_at (files s) (abs_of w (log_path lg)) = None"
    using that unfolding tail_def path_exists_def by simp
  have present: "tail w loads lg n s =
              Inr (List.map_filter (decode_line loads) (lastn (nat n) (splitlines False tx)))"
    if "node_at (files s) (abs_of w (log_path lg)) = Some (File tx)" for tx
    using that unfolding tail_def path_exists_def read_text_def
    by (simp add: tail_loop_map_filter slice_from_lastn[OF assms])
  have len: "length (List.map_filter (decode_line loads) (lastn (nat n) (splitlines False tx)))
              \<le> nat n" for tx
    using length_map_filter_le[of "decode_line loads" "lastn (nat n) (splitlines False tx)"]
    by simp
  have suf: "suffix (List.map_filter (decode_line loads) (lastn (nat n) (splitlines False tx)))
                   (List.map_filter (decode_line loads) (splitlines False tx))" for tx
    by (rule suffix_map_filter[OF suffix_lastn])
  have spec: "List.map_filter (decode_line loads) (lastn (nat n) (splitlines False tx)) =
      tail_by_spec loads n tx"
    if "\<forall>l\<in>set (lastn (nat n) (splitlines False tx)). decode_line loads l \<noteq> None" for tx
    unfolding tail_by_spec_def using lastn_map_filter_window[OF that] by simp
  show ?thesis using missing present len suf spec by simp
qed

theorem tail_reads_last_lines_witness:
  "tail example_world example_loads example_logger 3 example_state = Inr [] \<and>
   tail example_world example_loads example_logger 3 torn_log_state =
     Inr [[(''status'', ''ok'')], [(''status'', ''alert'')]] \<and>
   tail example_world example_loads example_logger 1 good_log_state =
     Inr (tail_by_spec example_loads 1 good_log_text) \<and>
   tail_by_spec example_loads 1 good_log_text = [[(''status'', ''alert'')]]"
proof -
  have p: "abs_of example_world (log_path example_logger) =
      [''home'', ''u'', ''.tinman'', ''heartbeat.log'']"
    by (simp add: example_logger_def)
  have m: "node_at (files example_state) (abs_of example_world (log_path example_logger)) = None"
    by (simp add: p node_at_def example_state_def example_files_def)
  have f: "node_at (files torn_log_state) (abs_of example_world (log_path example_logger)) =
      Some (File torn_log_text)"
    by (simp add: p node_at_def torn_log_state_def)
  have g: "node_at (files good_log_state) (abs_of example_world (log_path example_logger)) =
      Some (File good_log_text)"
    by (simp add: p node_at_def good_log_state_def)
  have l: \<open>splitlines False torn_log_text =
      [''{"status": "ok"}'', ''{"status": "alert"}'', ''{"status": '']\<close>
    \<open>splitlines False good_log_text = [''{"status": "ok"}'', ''{"status": "alert"}'']\<close>
    by (simp_all add: torn_log_text_def good_log_text_def splitlines_def is_linebreak_def)
  have d: \<open>decode_line example_loads ''{"status": "ok"}'' = Some [(''status'', ''ok'')]\<close>
    \<open>decode_line example_loads ''{"status": "alert"}'' = Some [(''status'', ''alert'')]\<close>
    \<open>decode_line example_loads ''{"status": '' = None\<close>
    by (simp_all add: decode_line_def example_loads_def py_strip_def isspace_def)
  have three: "(0::int) < 3" and one: "(0::int) < 1" by simp_all
  have "tail example_world example_loads example_logger 3 example_state = Inr []"
    using tail_reads_last_lines[OF three, of example_state example_world example_logger example_loads] m
    by simp
  moreover have "tail example_world example_loads example_logger 3 torn_log_state =
     Inr [[(''status'', ''ok'')], [(''status'', ''alert'')]]"
    using tail_reads_last_lines[OF three, of torn_log_state example_world example_logger example_loads] f
    by (simp add: l d lastn_def List.map_filter_simps)
  moreover have ts: "tail_by_spec example_loads 1 good_log_text = [[(''status'', ''alert'')]]"
    by (simp add: tail_by_spec_def l d lastn_def List.map_filter_simps)
  moreover have "tail example_world example_loads example_logger 1 good_log_state =
     Inr (tail_by_spec example_loads 1 good_log_text)"
    using tail_reads_last_lines[OF one, of good_log_state example_world example_logger example_loads] g
    by (simp add: l d lastn_def ts)
  ultimately show ?thesis by simp
qed

theorem tail_counts_malformed_lines_counterexample:
  "tail example_world example_loads example_logger 2 torn_log_state =
     Inr [[(''status'', ''alert'')]] \<and>
   tail_by_spec example_loads 2 torn_log_text =
     [[(''status'', ''ok'')], [(''status'', ''alert'')]]"
  by code_simp

subsection \<open>C5: no result leaves the heartbeat unclassified\<close>

text \<open>
  Claim C5.  For every run of \<open>run_beat\<close>, each result handed to the logger, to the
  emitter, to the console sink or to the remote sink, and the result returned, has one
  of the statuses \<open>ok\<close>, \<open>alert\<close>, \<open>error\<close>, \<open>skipped_empty\<close>, and never \<open>unknown\<close>.
\<close>

theorem run_beat_status_classified:
  "(\<forall>ev\<in>set (events_since s (snd (run_beat w rn s))). \<forall>r. carried ev = Some r \<longrightarrow>
      status r \<in> {''ok'', ''alert'', ''error'', ''skipped_empty''} \<and> status r \<noteq> ''unknown'') \<and>
   (\<forall>r. fst (run_beat w rn s) = Inr r \<longrightarrow>
      status r \<in> {''ok'', ''alert'', ''error'', ''skipped_empty''} \<and> status r \<noteq> ''unknown'')"
proof -
  obtain evs where ev: "trace (snd (run_beat w rn s)) = trace s @ evs"
      "\<forall>ev\<in>set evs. \<forall>r. carried ev = Some r \<longrightarrow>
         status r \<in> {''ok'', ''alert'', ''error'', ''skipped_empty''}"
      "\<forall>r. fst (run_beat w rn s) = Inr r \<longrightarrow>
         status r \<in> {''ok'', ''alert'', ''error'', ''skipped_empty''}"
    using run_beat_carries[of w rn s] by blast
  have "events_since s (snd (run_beat w rn s)) = evs"
    using ev(1) by (rule events_since_append)
  moreover have "x \<noteq> ''unknown''"
    if "x \<in> {''ok'', ''alert'', ''error'', ''skipped_empty''}" for x :: string
    using that by auto
  ultimately show ?thesis using ev(2,3) by blast
qed

theorem run_beat_status_classified_witness:
  "map carried (events_since example_state (snd (run_beat example_world example_runner example_state))) =
     [None,
      Some \<lparr>timestamp = ''2025-01-01T00:00:00Z'', status = ''ok'', output' = ''HEARTBEAT_OK'',
          error = [], duration_seconds = 1\<rparr>,
      Some \<lparr>timestamp = ''2025-01-01T00:00:00Z'', status = ''ok'', output' = ''HEARTBEAT_OK'',
          error = [], duration_seconds = 1\<rparr>,
      Some \<lparr>timestamp = ''2025-01-01T00:00:00Z'', status = ''ok'', output' = ''HEARTBEAT_OK'',
          error = [], duration_seconds = 1\<rparr>,
      None] \<and>
   fst (run_beat example_world example_runner example_state) =
     Inr \<lparr>timestamp = ''2025-01-01T00:00:00Z'', status = ''ok'', output' = ''HEARTBEAT_OK'',
          error = [], duration_seconds = 1\<rparr> \<and>
   ''ok'' \<in> {''ok'', ''alert'', ''error'', ''skipped_empty''} \<and> ''ok'' \<noteq> ''unknown''"
proof -
  have e: "map carried (events_since example_state (snd (run_beat example_world example_runner example_state))) =
     [None,
      Some \<lparr>timestamp = ''2025-01-01T00:00:00Z'', status = ''ok'', output' = ''HEARTBEAT_OK'',
          error = [], duration_seconds = 1\<rparr>,
      Some \<lparr>timestamp = ''2025-01-01T00:00:00Z'', status = ''ok'', output' = ''HEARTBEAT_OK'',
          error = [], duration_seconds = 1\<rparr>,
      Some \<lparr>timestamp = ''2025-01-01T00:00:00Z'', status = ''ok'', output' = ''HEARTBEAT_OK'',
          error = [], duration_seconds = 1\<rparr>,
      None]"
    by code_simp
  have f: "fst (run_beat example_world example_runner example_state) =
     Inr \<lparr>timestamp = ''2025-01-01T00:00:00Z'', status = ''ok'', output' = ''HEARTBEAT_OK'',
          error = [], duration_seconds = 1\<rparr>"
    by code_simp
  from run_beat_status_classified[of example_state example_world example_runner] f
  have "''ok'' \<in> {''ok'', ''alert'', ''error'', ''skipped_empty''} \<and> ''ok'' \<noteq> ''unknown''"
    by simp
  with e f show ?thesis by simp
qed

subsection \<open>C6: creating the checklist once\<close>

text \<open>
  Claim C6.  \<open>ensure_heartbeat_md\<close> is idempotent.  If something exists at the resolved
  checklist path, the call returns that path and leaves every file as it was, whatever
  the file holds.  If nothing exists there, and no regular file stands where a parent
  directory is needed, the call creates the missing parent directories, writes the
  built-in default template to the path and returns the path; a second call then
  returns the same path and changes nothing.
\<close>

theorem ensure_heartbeat_md_idempotent:
  assumes "expanduser w (heartbeat_md (config rn)) = Inr p0"
  shows "(path_exists (files s) (abs_of w (resolved w p0)) \<longrightarrow>
            ensure_heartbeat_md w rn s =
              (Inr (resolved w p0), s\<lparr>heartbeat_md_path := Some (resolved w p0)\<rparr>)) \<and>
         (\<not> path_exists (files s) (abs_of w (resolved w p0)) \<and>
          (\<forall>q t. q \<noteq> [] \<and> prefix q (abs_of w (parent (resolved w p0))) \<longrightarrow>
                   files s q \<noteq> Some (File t)) \<longrightarrow>
            (\<exists>s'. ensure_heartbeat_md w rn s = (Inr (resolved w p0), s') \<and>
                   files s' =
                     (\<lambda>q. if q = abs_of w (resolved w p0) then Some (File DEFAULT_HEARTBEAT_MD)
                          else if q \<noteq> [] \<and> prefix q (abs_of w (parent (resolved w p0))) \<and>
                                  files s q = None
                          then Some Dir else files s q) \<and>
                   ensure_heartbeat_md w rn s' = (Inr (resolved w p0), s')))"
proof -
  obtain cs where cs: "resolved w p0 = AbsPath cs" using resolved_abs by blast
  have unf: "ensure_heartbeat_md w rn t =
      (if \<not> path_exists (files t) cs then
         (case mkdir_parents (files t) (butlast cs) of
            Inl e \<Rightarrow> (Inl e, t)
          | Inr fs1 \<Rightarrow>
              (case write_text fs1 cs DEFAULT_HEARTBEAT_MD of
                 Inl e \<Rightarrow> (Inl e, t\<lparr>files := fs1\<rparr>)
               | Inr fs2 \<Rightarrow>
                   (Inr (AbsPath cs),
                    t\<lparr>files := fs2,
                      trace := trace t @
                        [Print (''[TinMan] Created default HEARTBEAT.md at '' @ path_str (AbsPath cs)),
                         Print ''[TinMan] Edit it to customize your heartbeat checklist.''],
                      heartbeat_md_path := Some (AbsPath cs)\<rparr>)))
       else (Inr (AbsPath cs), t\<lparr>heartbeat_md_path := Some (AbsPath cs)\<rparr>))" for t
    unfolding ensure_heartbeat_md_def using assms cs[unfolded resolved_def]
    by (simp add: Let_def cong: sum.case_cong)
  have first: "path_exists (files s) cs \<longrightarrow>
      ensure_heartbeat_md w rn s = (Inr (AbsPath cs), s\<lparr>heartbeat_md_path := Some (AbsPath cs)\<rparr>)"
    by (simp add: unf)
  have second: "\<exists>s'. ensure_heartbeat_md w rn s = (Inr (AbsPath cs), s') \<and>
         files s' = (\<lambda>q. if q = cs then Some (File DEFAULT_HEARTBEAT_MD)
                          else if q \<noteq> [] \<and> prefix q (butlast cs) \<and> files s q = None
                          then Some Dir else files s q) \<and>
         ensure_heartbeat_md w rn s' = (Inr (AbsPath cs), s')"
    if ne: "\<not> path_exists (files s) cs"
      and clear: "\<forall>q t. q \<noteq> [] \<and> prefix q (butlast cs) \<longrightarrow> files s q \<noteq> Some (File t)"
  proof -
    define fs1 where "fs1 = (\<lambda>q. if q \<noteq> [] \<and> prefix q (butlast cs) \<and> files s q = None
                                  then Some Dir else files s q)"
    have mk: "mkdir_parents (files s) (butlast cs) = Inr fs1"
      unfolding fs1_def by (rule mkdir_parents_ok[OF clear])
    have nonempty: "cs \<noteq> []" and absent: "files s cs = None"
      using ne unfolding path_exists_def node_at_def by (auto split: if_splits)
    have "\<not> prefix cs (butlast cs)"
      using nonempty by (metis prefix_length_le length_butlast diff_less length_greater_0_conv
          less_numeral_extra(1) not_less)
    then have n1: "node_at fs1 cs = None"
      unfolding node_at_def fs1_def using nonempty absent by simp
    have n2: "node_at fs1 (butlast cs) = Some Dir"
    proof (cases "butlast cs = []")
      case True
      then show ?thesis by (simp add: node_at_def)
    next
      case False
      have "\<forall>t. files s (butlast cs) \<noteq> Some (File t)" using clear False by simp
      then show ?thesis
        unfolding node_at_def fs1_def using False
        by (cases "files s (butlast cs)"; cases "the (files s (butlast cs))") auto
    qed
    have wr: "write_text fs1 cs DEFAULT_HEARTBEAT_MD = Inr (fs1(cs \<mapsto> File DEFAULT_HEARTBEAT_MD))"
      unfolding write_text_def open_write_def using n1 n2 by simp
    define s' where "s' = s\<lparr>files := fs1(cs \<mapsto> File DEFAULT_HEARTBEAT_MD),
                      trace := trace s @
                        [Print (''[TinMan] Created default HEARTBEAT.md at '' @ path_str (AbsPath cs)),
                         Print ''[TinMan] Edit it to customize your heartbeat checklist.''],
                      heartbeat_md_path := Some (AbsPath cs)\<rparr>"
    have r1: "ensure_heartbeat_md w rn s = (Inr (AbsPath cs), s')"
      unfolding s'_def using ne mk wr by (simp add: unf)
    have r2: "files s' = (\<lambda>q. if q = cs then Some (File DEFAULT_HEARTBEAT_MD)
                          else if q \<noteq> [] \<and> prefix q (butlast cs) \<and> files s q = None
                          then Some Dir else files s q)"
      unfolding s'_def fs1_def by (auto simp: fun_eq_iff)
    have "path_exists (files s') cs"
      unfolding s'_def path_exists_def node_at_def by simp
    moreover have "s'\<lparr>heartbeat_md_path := Some (AbsPath cs)\<rparr> = s'" unfolding s'_def by simp
    ultimately have r3: "ensure_heartbeat_md w rn s' = (Inr (AbsPath cs), s')"
      by (simp add: unf)
    from r1 r2 r3 show ?thesis by blast
  qed
  show ?thesis unfolding cs abs_of.simps parent.simps using first second by blast
qed

theorem ensure_heartbeat_md_idempotent_witness:
  "ensure_heartbeat_md example_world example_runner example_state =
     (Inr (AbsPath [''home'', ''u'', ''proj'', ''HEARTBEAT.md'']),
      example_state\<lparr>heartbeat_md_path :=
        Some (AbsPath [''home'', ''u'', ''proj'', ''HEARTBEAT.md''])\<rparr>) \<and>
   files example_state [''home'', ''u'', ''proj'', ''HEARTBEAT.md''] =
     Some (File ''Check the disk.\<newline>'') \<and>
   fst (ensure_heartbeat_md example_world example_runner fresh_state) =
     Inr (AbsPath [''home'', ''u'', ''proj'', ''HEARTBEAT.md'']) \<and>
   files (snd (ensure_heartbeat_md example_world example_runner fresh_state))
     [''home'', ''u'', ''proj'', ''HEARTBEAT.md''] = Some (File DEFAULT_HEARTBEAT_MD) \<and>
   files (snd (ensure_heartbeat_md example_world example_runner fresh_state))
     [''home'', ''u'', ''proj''] = Some Dir \<and>
   ensure_heartbeat_md example_world example_runner
     (snd (ensure_heartbeat_md example_world example_runner fresh_state)) =
     ensure_heartbeat_md example_world example_runner fresh_state"
proof -
  have e: "expanduser example_world (heartbeat_md (config example_runner)) =
      Inr (RelPath [''HEARTBEAT.md''])"
    by (simp add: example_runner_def default_config_def)
  have r: "resolved example_world (RelPath [''HEARTBEAT.md'']) =
      AbsPath [''home'', ''u'', ''proj'', ''HEARTBEAT.md'']"
    by (simp add: resolved_def example_world_def)
  have x: "path_exists (files example_state) [''home'', ''u'', ''proj'', ''HEARTBEAT.md'']"
    "files example_state [''home'', ''u'', ''proj'', ''HEARTBEAT.md''] =
       Some (File ''Check the disk.\<newline>'')"
    by (simp_all add: path_exists_def node_at_def example_state_def example_files_def)
  have n: "\<not> path_exists (files fresh_state) [''home'', ''u'', ''proj'', ''HEARTBEAT.md'']"
    by (simp add: path_exists_def node_at_def fresh_state_def fresh_files_def)
  have c: "\<forall>q t. q \<noteq> [] \<and> prefix q [''home'', ''u'', ''proj''] \<longrightarrow>
      files fresh_state q \<noteq> Some (File t)"
    by (simp add: fresh_state_def fresh_files_def)
  have f: "files fresh_state [''home'', ''u'', ''proj''] = None"
    by (simp add: fresh_state_def fresh_files_def)
  from ensure_heartbeat_md_idempotent[OF e, of example_state] x(1)
  have a: "ensure_heartbeat_md example_world example_runner example_state =
     (Inr (AbsPath [''home'', ''u'', ''proj'', ''HEARTBEAT.md'']),
      example_state\<lparr>heartbeat_md_path :=
        Some (AbsPath [''home'', ''u'', ''proj'', ''HEARTBEAT.md''])\<rparr>)"
    by (simp add: r)
  from ensure_heartbeat_md_idempotent[OF e, of fresh_state] n c
  obtain s' where s': "ensure_heartbeat_md example_world example_runner fresh_state =
        (Inr (AbsPath [''home'', ''u'', ''proj'', ''HEARTBEAT.md'']), s')"
      "files s' = (\<lambda>q. if q = [''home'', ''u'', ''proj'', ''HEARTBEAT.md'']
                         then Some (File DEFAULT_HEARTBEAT_MD)
                         else if q \<noteq> [] \<and> prefix q [''home'', ''u'', ''proj''] \<and>
                                 files fresh_state q = None
                         then Some Dir else files fresh_state q)"
      "ensure_heartbeat_md example_world example_runner s' =
        (Inr (AbsPath [''home'', ''u'', ''proj'', ''HEARTBEAT.md'']), s')"
    unfolding r abs_of.simps parent.simps butlast.simps by auto
  from a x(2) s' f show ?thesis by simp
qed

subsection \<open>C7: the tool is not installed\<close>

text \<open>
  Claim C7.  When the checklist is not blank and the tool cannot be located,
  \<open>run_beat\<close> returns the result of status \<open>error\<close> whose error text is the fixed message
  mentioning installation and whose duration is the rounded time between the two clock
  readings taken around the lookup, and no child process is started.  The duration is
  measured, not fixed: it is zero only when the lookup takes under five milliseconds,
  and one second of lookup gives a duration of one.
\<close>

theorem tool_not_found_result:
  assumes "ensure_heartbeat_md w rn s = (Inr p, s1)"
    and "read_text (files s1) (abs_of w p) = Inr checklist"
    and "py_strip checklist \<noteq> []"
    and "which w ''claude'' = None"
    and "log_ready w (logger rn) (files s1)"
    and "\<And>r. sink_ok w (config rn) r"
  shows "fst (run_beat w rn s) =
           Inr \<lparr>timestamp = utcnow w @ ''Z'', status = ''error'', output' = [],
                error = ''claude CLI not found. Install Claude Code: https://claude.ai/code'',
                duration_seconds = round2 (time_end w - time_start w)\<rparr> \<and>
         contains ''Install''
           ''claude CLI not found. Install Claude Code: https://claude.ai/code'' \<and>
         filter is_exec (events_since s (snd (run_beat w rn s))) = []"
proof -
  have "fst (invoke_claude w rn checklist s1) = Inl (FileNotFoundError ''claude'')"
    using assms(4) by (rule invoke_claude_not_found)
  from try_invoke_raised[OF this]
  have br: "beat_result w rn checklist s1 =
      \<lparr>timestamp = utcnow w @ ''Z'', status = ''error'', output' = [],
       error = ''claude CLI not found. Install Claude Code: https://claude.ai/code'',
       duration_seconds = round2 (time_end w - time_start w)\<rparr>"
    unfolding beat_result_def using assms(3) by simp
  from run_beat_ok[OF assms(1,2,5,6)]
  obtain evs where ok: "fst (run_beat w rn s) = Inr (beat_result w rn checklist s1)"
      "trace (snd (run_beat w rn s)) = trace s @ evs" "filter is_exec evs = []"
    using assms(3,4) by auto
  have "events_since s (snd (run_beat w rn s)) = evs"
    using ok(2) by (rule events_since_append)
  moreover have "contains ''Install''
      ''claude CLI not found. Install Claude Code: https://claude.ai/code''"
    by simp
  ultimately show ?thesis using ok(1,3) br by simp
qed

theorem tool_not_found_result_witness:
  "fst (run_beat no_tool_world example_runner example_state) =
     Inr \<lparr>timestamp = ''2025-01-01T00:00:00Z'', status = ''error'', output' = [],
          error = ''claude CLI not found. Install Claude Code: https://claude.ai/code'',
          duration_seconds = 1\<rparr> \<and>
   filter is_exec
     (events_since example_state (snd (run_beat no_tool_world example_runner example_state))) = []"
proof -
  have r2: "round2 1 = 1" by code_simp
  show ?thesis
    using tool_not_found_result[OF example_ensure[OF no_tool_world_facts(1)] example_read
        example_checklist_not_blank no_tool_world_facts(4) example_log_ready example_sink_ok]
    by (simp add: no_tool_world_facts r2)
qed

theorem slow_lookup_counterexample:
  "time_start no_tool_world = 100 \<and> time_end no_tool_world = 101 \<and>
   fst (run_beat no_tool_world example_runner example_state) =
     Inr \<lparr>timestamp = ''2025-01-01T00:00:00Z'', status = ''error'', output' = [],
          error = ''claude CLI not found. Install Claude Code: https://claude.ai/code'',
          duration_seconds = 1\<rparr>"
  by code_simp

subsection \<open>C8: the safety prefix and the prompt\<close>

text \<open>
  Claim C8.  For every configuration the safety prefix is empty exactly when
  \<open>notify_only\<close> is off, \<open>max_actions_per_run\<close> is not zero and \<open>require_confirmation\<close> is
  off; otherwise its lines are the fixed header followed by one bulleted advisory for
  each active flag, in the order of the flags; and the command \<open>invoke_claude\<close> runs has
  as its prompt the prefix, the separator and the checklist text as read.
\<close>

theorem safety_prefix_and_prompt:
  "(safety_prefix cfg = [] \<longleftrightarrow>
      (\<not> notify_only cfg \<and> max_actions_per_run cfg \<noteq> 0 \<and> \<not> require_confirmation cfg)) \<and>
   splitlines False (safety_prefix cfg) =
     (if \<not> notify_only cfg \<and> max_actions_per_run cfg \<noteq> 0 \<and> \<not> require_confirmation cfg then []
      else ''=== TinMan Safety Rules (enforced by config) ==='' #
           (if notify_only cfg
            then [''- NOTIFY-ONLY MODE: Do not execute any commands or take autonomous actions.'']
            else []) @
           (if max_actions_per_run cfg = 0
            then [''- You may not run shell commands in this heartbeat.'']
            else []) @
           (if require_confirmation cfg
            then [''- If action is needed, describe it and ask for confirmation. Do not proceed.'']
            else [])) \<and>
   filter is_exec (events_since s (snd (invoke_claude w rn checklist s))) =
     (case which w ''claude'' of
        None \<Rightarrow> []
      | Some b \<Rightarrow>
          if b = [] then []
          else [Exec [b, ''--print'',
                      safety_prefix (config rn) @ ''\<newline>\<newline>---\<newline>\<newline>'' @ checklist]])"
proof -
  have a: "safety_prefix cfg = [] \<longleftrightarrow>
      (\<not> notify_only cfg \<and> max_actions_per_run cfg \<noteq> 0 \<and> \<not> require_confirmation cfg)"
    by (simp add: safety_prefix_def)
  have b: "splitlines False (safety_prefix cfg) =
     (if \<not> notify_only cfg \<and> max_actions_per_run cfg \<noteq> 0 \<and> \<not> require_confirmation cfg then []
      else ''=== TinMan Safety Rules (enforced by config) ==='' #
           (if notify_only cfg
            then [''- NOTIFY-ONLY MODE: Do not execute any commands or take autonomous actions.'']
            else []) @
           (if max_actions_per_run cfg = 0
            then [''- You may not run shell commands in this heartbeat.'']
            else []) @
           (if require_confirmation cfg
            then [''- If action is needed, describe it and ask for confirmation. Do not proceed.'']
            else []))"
    by (cases "notify_only cfg"; cases "max_actions_per_run cfg = 0"; cases "require_confirmation cfg")
       (simp_all add: safety_prefix_def splitlines_def is_linebreak_def)
  have c: "filter is_exec (events_since s (snd (invoke_claude w rn checklist s))) =
     (case which w ''claude'' of
        None \<Rightarrow> []
      | Some b \<Rightarrow>
          if b = [] then []
          else [Exec [b, ''--print'',
                      safety_prefix (config rn) @ ''\<newline>\<newline>---\<newline>\<newline>'' @ checklist]])"
    unfolding events_since_def by (simp add: invoke_claude_trace split: option.splits)
  from a b c show ?thesis by blast
qed

theorem safety_prefix_and_prompt_witness:
  "safety_prefix chaos_config = [] \<and>
   splitlines False (safety_prefix default_config) =
     [''=== TinMan Safety Rules (enforced by config) ==='',
      ''- NOTIFY-ONLY MODE: Do not execute any commands or take autonomous actions.'',
      ''- You may not run shell commands in this heartbeat.'',
      ''- If action is needed, describe it and ask for confirmation. Do not proceed.''] \<and>
   filter is_exec
     (events_since example_state
        (snd (invoke_claude example_world
                (example_runner\<lparr>config := chaos_config\<rparr>) ''Check the disk.\<newline>'' example_state))) =
     [Exec [''/usr/local/bin/claude'', ''--print'',
            ''\<newline>\<newline>---\<newline>\<newline>Check the disk.\<newline>'']]"
proof -
  have c: "\<not> notify_only chaos_config" "max_actions_per_run chaos_config \<noteq> 0"
      "\<not> require_confirmation chaos_config"
    by (simp_all add: chaos_config_def default_config_def)
  have d: "notify_only default_config" "max_actions_per_run default_config = 0"
      "require_confirmation default_config"
    by (simp_all add: default_config_def)
  have w: "which example_world ''claude'' = Some ''/usr/local/bin/claude''"
    by (simp add: example_world_def)
  show ?thesis
    using safety_prefix_and_prompt[of chaos_config example_state example_world
        "example_runner\<lparr>config := chaos_config\<rparr>" "''Check the disk.\<newline>''"]
      safety_prefix_and_prompt[of default_config example_state example_world
        "example_runner\<lparr>config := chaos_config\<rparr>" "''Check the disk.\<newline>''"]
    by (simp add: c d w)
qed

subsection \<open>C9: logging switched off\<close>

text \<open>
  Claim C9.  With \<open>log_heartbeats\<close> off, a call of the logger returns and leaves the
  whole state, the log file included, as it was.
\<close>

theorem log_disabled_changes_nothing:
  "\<not> log_heartbeats (lg_config lg) \<Longrightarrow> logger_log w lg r s = (Inr (), s)"
  by (simp add: logger_log_def)

theorem log_disabled_changes_nothing_witness:
  "\<not> log_heartbeats (lg_config quiet_logger) \<and>
   logger_log example_world quiet_logger example_result example_state = (Inr (), example_state)"
proof -
  have h: "\<not> log_heartbeats (lg_config quiet_logger)"
    by (simp add: quiet_logger_def)
  from log_disabled_changes_nothing[OF h] h show ?thesis by simp
qed

subsection \<open>C10: constructing the logger\<close>

text \<open>
  Claim C10.  Constructing a \<open>HeartbeatLogger\<close>, and therefore a \<open>HeartbeatRunner\<close>,
  creates the parent directory of the configured log path, with the ancestors of it
  that are missing, whether or not logging is enabled in the configuration; every
  other path of the file system, the log file included, is left as it was.  (The
  construction succeeds when the home directory can be expanded and no regular file
  stands where a directory is needed.)
\<close>

theorem logger_init_creates_parent_directory:
  assumes "expanduser w (log_file cfg) = Inr lp"
    and "\<forall>q t. q \<noteq> [] \<and> prefix q (abs_of w (parent lp)) \<longrightarrow> files s q \<noteq> Some (File t)"
  shows "HeartbeatLogger_init w cfg s =
           (Inr \<lparr>lg_config = cfg, log_path = lp\<rparr>,
            s\<lparr>files := (\<lambda>q. if q \<noteq> [] \<and> prefix q (abs_of w (parent lp)) \<and> files s q = None
                            then Some Dir else files s q)\<rparr>) \<and>
         node_at (files (snd (HeartbeatLogger_init w cfg s))) (abs_of w (parent lp)) = Some Dir \<and>
         files (snd (HeartbeatRunner_init w cfg s)) = files (snd (HeartbeatLogger_init w cfg s))"
proof -
  have a: "HeartbeatLogger_init w cfg s =
           (Inr \<lparr>lg_config = cfg, log_path = lp\<rparr>,
            s\<lparr>files := (\<lambda>q. if q \<noteq> [] \<and> prefix q (abs_of w (parent lp)) \<and> files s q = None
                            then Some Dir else files s q)\<rparr>)"
    unfolding HeartbeatLogger_init_def using assms(1) mkdir_parents_ok[OF assms(2)] by simp
  have b: "node_at (files (snd (HeartbeatLogger_init w cfg s))) (abs_of w (parent lp)) = Some Dir"
  proof (cases "abs_of w (parent lp) = []")
    case True
    then show ?thesis by (simp add: node_at_def)
  next
    case False
    moreover have "\<forall>t. files s (abs_of w (parent lp)) \<noteq> Some (File t)"
      using assms(2) False by simp
    ultimately show ?thesis
      unfolding a node_at_def
      by (cases "files s (abs_of w (parent lp))"; cases "the (files s (abs_of w (parent lp)))") auto
  qed
  have c: "files (snd (HeartbeatRunner_init w cfg s)) = files (snd (HeartbeatLogger_init w cfg s))"
    unfolding HeartbeatRunner_init_def by (simp split: prod.splits sum.splits)
  from a b c show ?thesis by blast
qed

theorem logger_init_creates_parent_directory_witness:
  "\<not> log_heartbeats quiet_config \<and>
   fst (HeartbeatLogger_init example_world quiet_config fresh_state) =
     Inr \<lparr>lg_config = quiet_config,
          log_path = AbsPath [''home'', ''u'', ''.tinman'', ''heartbeat.log'']\<rparr> \<and>
   files (snd (HeartbeatLogger_init example_world quiet_config fresh_state))
     [''home'', ''u'', ''.tinman''] = Some Dir \<and>
   files (snd (HeartbeatLogger_init example_world quiet_config fresh_state))
     [''home'', ''u'', ''.tinman'', ''heartbeat.log''] = None \<and>
   files (snd (HeartbeatLogger_init example_world quiet_config fresh_state))
     [''home'', ''u''] = Some Dir"
proof -
  have e: "expanduser example_world (log_file quiet_config) =
      Inr (AbsPath [''home'', ''u'', ''.tinman'', ''heartbeat.log''])"
    by (simp add: quiet_config_def default_config_def example_world_def)
  have h: "\<forall>q t. q \<noteq> [] \<and>
      prefix q (abs_of example_world (parent (AbsPath [''home'', ''u'', ''.tinman'', ''heartbeat.log''])))
      \<longrightarrow> files fresh_state q \<noteq> Some (File t)"
    by (simp add: fresh_state_def fresh_files_def)
  have q: "\<not> log_heartbeats quiet_config" by (simp add: quiet_config_def)
  show ?thesis
    using logger_init_creates_parent_directory[OF e h] q
    by (simp add: fresh_state_def fresh_files_def)
qed

subsection \<open>Remarks: a cap or a count of zero\<close>

text \<open>
  The specification takes \<open>max_log_lines\<close> to be positive, and C4 above is stated for a
  positive \<open>n\<close>.  At zero the slice \<open>lines[-0:]\<close> is the whole list: a cap of zero trims
  nothing, and \<open>tail 0\<close> returns every entry.
\<close>

lemma log_cap_zero_keeps_all_lines:
  "length (log_lines
     (files (snd (log_all example_world
                    (example_logger\<lparr>lg_config := default_config\<lparr>max_log_lines := 0\<rparr>\<rparr>)
                    [result1, result2] example_state)))
     [''home'', ''u'', ''.tinman'', ''heartbeat.log'']) = 2"
  by code_simp

lemma tail_zero_returns_every_entry:
  "tail example_world example_loads example_logger 0 good_log_state =
     Inr [[(''status'', ''ok'')], [(''status'', ''alert'')]]"
  by code_simp

end
